theory Spec2Isabelle
  imports Complex_Main
begin

section \<open>Double-precision values\<close>

text \<open>
  The program computes with C \<open>double\<close> and \<open>float\<close> values and branches on whether
  a value is NaN (\<open>x == x\<close> is false exactly for NaN).  The model keeps the four kinds of
  value an IEEE number can have: a finite number, the two infinities and NaN.  Finite values
  are exact reals, so rounding, overflow of finite sums and the sign of zero are abstracted;
  every comparison with NaN is false and every arithmetic operation on NaN yields NaN, as
  in C.
\<close>

datatype dbl = Fin real | PInf | NInf | NaN

fun d_eq :: "dbl \<Rightarrow> dbl \<Rightarrow> bool" where
  "d_eq NaN _ = False"
| "d_eq _ NaN = False"
| "d_eq (Fin x) (Fin y) = (x = y)"
| "d_eq PInf PInf = True"
| "d_eq NInf NInf = True"
| "d_eq _ _ = False"

fun d_lt :: "dbl \<Rightarrow> dbl \<Rightarrow> bool" where
  "d_lt NaN _ = False"
| "d_lt _ NaN = False"
| "d_lt (Fin x) (Fin y) = (x < y)"
| "d_lt (Fin x) PInf = True"
| "d_lt NInf (Fin y) = True"
| "d_lt NInf PInf = True"
| "d_lt _ _ = False"

definition d_gt :: "dbl \<Rightarrow> dbl \<Rightarrow> bool" where
  "d_gt a b = d_lt b a"

definition d_le :: "dbl \<Rightarrow> dbl \<Rightarrow> bool" where
  "d_le a b = (d_lt a b \<or> d_eq a b)"

definition d_ge :: "dbl \<Rightarrow> dbl \<Rightarrow> bool" where
  "d_ge a b = d_le b a"

fun d_neg :: "dbl \<Rightarrow> dbl" where
  "d_neg (Fin x) = Fin (- x)"
| "d_neg PInf = NInf"
| "d_neg NInf = PInf"
| "d_neg NaN = NaN"

fun d_add :: "dbl \<Rightarrow> dbl \<Rightarrow> dbl" where
  "d_add NaN _ = NaN"
| "d_add _ NaN = NaN"
| "d_add (Fin x) (Fin y) = Fin (x + y)"
| "d_add PInf NInf = NaN"
| "d_add NInf PInf = NaN"
| "d_add PInf _ = PInf"
| "d_add _ PInf = PInf"
| "d_add NInf _ = NInf"
| "d_add _ NInf = NInf"

definition d_sub :: "dbl \<Rightarrow> dbl \<Rightarrow> dbl" where
  "d_sub a b = d_add a (d_neg b)"

text \<open>The sign of a non-NaN value: \<open>1\<close>, \<open>0\<close> or \<open>-1\<close>.\<close>

fun d_sgn :: "dbl \<Rightarrow> int" where
  "d_sgn (Fin x) = (if 0 < x then 1 else if x < 0 then - 1 else 0)"
| "d_sgn PInf = 1"
| "d_sgn NInf = - 1"
| "d_sgn NaN = 0"

definition inf_of_sign :: "int \<Rightarrow> dbl" where
  "inf_of_sign s = (if 0 < s then PInf else if s < 0 then NInf else NaN)"

fun d_mul :: "dbl \<Rightarrow> dbl \<Rightarrow> dbl" where
  "d_mul NaN _ = NaN"
| "d_mul _ NaN = NaN"
| "d_mul (Fin x) (Fin y) = Fin (x * y)"
| "d_mul a b = inf_of_sign (d_sgn a * d_sgn b)"

text \<open>
  Division: a finite non-zero value divided by zero is an infinity of the sign of the
  dividend (the zero divisor is taken as \<open>+0\<close>), \<open>0/0\<close> and \<open>inf/inf\<close> are NaN, and a
  finite value divided by an infinity is zero.
\<close>

fun d_div :: "dbl \<Rightarrow> dbl \<Rightarrow> dbl" where
  "d_div NaN _ = NaN"
| "d_div _ NaN = NaN"
| "d_div (Fin x) (Fin y) = (if y = 0 then inf_of_sign (d_sgn (Fin x)) else Fin (x / y))"
| "d_div (Fin x) _ = Fin 0"
| "d_div a (Fin y) = inf_of_sign (d_sgn a * (if y < 0 then - 1 else 1))"
| "d_div _ _ = NaN"

fun d_fabs :: "dbl \<Rightarrow> dbl" where
  "d_fabs (Fin x) = Fin \<bar>x\<bar>"
| "d_fabs PInf = PInf"
| "d_fabs NInf = PInf"
| "d_fabs NaN = NaN"

fun d_sqrt :: "dbl \<Rightarrow> dbl" where
  "d_sqrt (Fin x) = (if x < 0 then NaN else Fin (sqrt x))"
| "d_sqrt PInf = PInf"
| "d_sqrt NInf = NaN"
| "d_sqrt NaN = NaN"

text \<open>\<open>pow(x, 2.0)\<close> and \<open>pow(x, 0.5)\<close>, the only two uses of \<open>pow\<close> in the program.\<close>

fun d_pow2 :: "dbl \<Rightarrow> dbl" where
  "d_pow2 (Fin x) = Fin (x * x)"
| "d_pow2 PInf = PInf"
| "d_pow2 NInf = PInf"
| "d_pow2 NaN = NaN"

fun d_pow_half :: "dbl \<Rightarrow> dbl" where
  "d_pow_half (Fin x) = (if x < 0 then NaN else Fin (sqrt x))"
| "d_pow_half PInf = PInf"
| "d_pow_half NInf = PInf"
| "d_pow_half NaN = NaN"

text \<open>The two-argument arctangent of C, on reals and then on doubles.\<close>

definition atan2_real :: "real \<Rightarrow> real \<Rightarrow> real" where
  "atan2_real y x =
     (if 0 < x then arctan (y / x)
      else if x < 0 then (if 0 \<le> y then arctan (y / x) + pi else arctan (y / x) - pi)
      else if 0 < y then pi / 2
      else if y < 0 then - (pi / 2)
      else 0)"

fun d_atan2 :: "dbl \<Rightarrow> dbl \<Rightarrow> dbl" where
  "d_atan2 NaN _ = NaN"
| "d_atan2 _ NaN = NaN"
| "d_atan2 (Fin y) (Fin x) = Fin (atan2_real y x)"
| "d_atan2 (Fin y) PInf = Fin 0"
| "d_atan2 (Fin y) NInf = Fin (if 0 \<le> y then pi else - pi)"
| "d_atan2 PInf (Fin x) = Fin (pi / 2)"
| "d_atan2 NInf (Fin x) = Fin (- (pi / 2))"
| "d_atan2 PInf PInf = Fin (pi / 4)"
| "d_atan2 PInf NInf = Fin (3 * pi / 4)"
| "d_atan2 NInf PInf = Fin (- (pi / 4))"
| "d_atan2 NInf NInf = Fin (- (3 * pi / 4))"

text \<open>A value is a number when it compares equal to itself.\<close>

definition is_number :: "dbl \<Rightarrow> bool" where
  "is_number a = d_eq a a"

section \<open>The data of \<open>pitch_class.h\<close>\<close>

text \<open>
  \<open>struct fft_out\<close> and \<open>struct result_pa\<close>.  The fields keep their names behind a
  prefix (\<open>f_\<close> for \<open>fft_out\<close>, \<open>r_\<close> for \<open>result_pa\<close>), since \<open>real\<close> and \<open>abs\<close>
  are constants of HOL and \<open>freq\<close>, \<open>snr\<close> and \<open>fwhm\<close> name two things in the source.
  An array of \<open>fft_out\<close> is a function from the index to the record: the arrays have a
  fixed size and every access of the code modelled here is inside it.
\<close>

record fft_out =
  f_real :: dbl
  f_imag :: dbl
  f_abs :: dbl
  f_freq :: dbl

record result_pa =
  r_index :: int
  r_freq :: dbl
  r_amp :: dbl
  r_avg_amp :: dbl
  r_pa :: dbl
  r_phase :: dbl
  r_snr :: dbl
  r_fwhm :: dbl

type_synonym fft_array = "int \<Rightarrow> fft_out"

definition PITCH_RET_OK :: int where "PITCH_RET_OK = 1"
definition PITCH_RET_NAN :: int where "PITCH_RET_NAN = 0"
definition PITCH_RET_ERR :: int where "PITCH_RET_ERR = - 1"

definition PITCH_ERR_INVALID :: int where "PITCH_ERR_INVALID = 2049"
definition PITCH_ERR_MAX_AMP :: int where "PITCH_ERR_MAX_AMP = 2050"
definition PITCH_ERR_ALLNANS :: int where "PITCH_ERR_ALLNANS = 2051"
definition PITCH_ERR_SIGMA :: int where "PITCH_ERR_SIGMA = 2052"
definition PITCH_ERR_SCANFWHM :: int where "PITCH_ERR_SCANFWHM = 2053"

definition LO_INDEX :: int where "LO_INDEX = 824"
definition HI_INDEX :: int where "HI_INDEX = 1226"

text \<open>
  Modelled from the spec: \<open>GR_RAD\<close> is defined in \<open>globals.h\<close>, which is not among the
  sources.  It is the angular unit scale, radians per degree: the sampler multiplies
  degrees by it to get radians, and \<open>2*PI/GR_RAD/DIM_THT\<close> is the step of 360 degrees
  over \<open>DIM_THT\<close> samples.
\<close>

definition GR_RAD :: real where
  "GR_RAD = pi / 180"

section \<open>\<open>pitch::pitch_phase\<close>\<close>

text \<open>
  The scan loop of \<open>pitch_phase\<close> runs \<open>i\<close> from \<open>LO_INDEX\<close> to \<open>HI_INDEX\<close> over
  the locals \<open>nan\<close>, \<open>index\<close> and \<open>a_max\<close>; \<open>scan_step\<close> is its body.
\<close>

type_synonym scan_state = "int \<times> int \<times> dbl"

definition scan_step :: "fft_array \<Rightarrow> scan_state \<Rightarrow> int \<Rightarrow> scan_state" where
  "scan_step fft s i =
     (case s of (nan, index, a_max) \<Rightarrow>
        let nan' = (if d_eq (f_abs (fft i)) (f_abs (fft i)) then 0 else nan)
        in if d_gt (f_abs (fft i)) a_max \<and> i \<noteq> 1025
           then (nan', i, f_abs (fft i))
           else (nan', index, a_max))"

definition scan_window :: "fft_array \<Rightarrow> scan_state" where
  "scan_window fft = foldl (scan_step fft) (1, - 1, Fin (- 255)) [LO_INDEX..HI_INDEX]"

text \<open>
  \<open>pitch_phase\<close> takes the array, the mode, the result record and the value of the global
  \<open>pitch_errno\<close>, and returns the status together with the record and \<open>pitch_errno\<close> as
  it leaves them.  The two literal returns \<open>return(0)\<close> and \<open>return(1)\<close> are kept as
  the numbers the source writes.
\<close>

definition pitch_phase :: "fft_array \<Rightarrow> int \<Rightarrow> result_pa \<Rightarrow> int \<Rightarrow> int \<times> result_pa \<times> int" where
  "pitch_phase fft mode res pitch_errno =
     (case scan_window fft of (nan, index, a_max) \<Rightarrow>
        if nan \<noteq> 0 then (PITCH_RET_NAN, res, pitch_errno)
        else if index < 0 then (0, res, PITCH_ERR_MAX_AMP)
        else
          let res1 = res\<lparr>r_amp := f_abs (fft index)\<rparr>;
              res2 = res1\<lparr>r_freq := f_freq (fft index)\<rparr>;
              res3 = res2\<lparr>r_index := index\<rparr>;
              res4 = res3\<lparr>r_pa := d_mul (d_atan2 (Fin (of_int mode)) (f_freq (fft index)))
                                       (d_div (Fin 1) (Fin GR_RAD))\<rparr>;
              res5 = (if d_gt (d_fabs (r_pa res4)) (Fin 90)
                      then res4\<lparr>r_pa := d_sub (r_pa res4) (Fin 180)\<rparr> else res4);
              res6 = res5\<lparr>r_phase := d_div (d_mul (d_atan2 (f_imag (fft index)) (f_real (fft index)))
                                                 (d_div (Fin 1) (Fin GR_RAD)))
                                          (Fin (of_int mode))\<rparr>
          in (1, res6, pitch_errno))"

text \<open>
  The pitch angle as \<open>pitch_phase\<close> computes it from the mode and the frequency of the
  maximum bin: the arctangent in degrees, less 180 when its magnitude exceeds 90.
\<close>

definition pitch_angle :: "int \<Rightarrow> dbl \<Rightarrow> dbl" where
  "pitch_angle mode freq =
     (let pa = d_mul (d_atan2 (Fin (of_int mode)) freq) (d_div (Fin 1) (Fin GR_RAD))
      in if d_gt (d_fabs pa) (Fin 90) then d_sub pa (Fin 180) else pa)"

text \<open>The window of the scan, and what it means for it to hold a number.\<close>

definition window :: "int set" where
  "window = {LO_INDEX..HI_INDEX}"

definition window_has_number :: "fft_array \<Rightarrow> bool" where
  "window_has_number fft = (\<exists>i\<in>set [LO_INDEX..HI_INDEX]. is_number (f_abs (fft i)))"

section \<open>\<open>pitch::snr\<close>\<close>

text \<open>
  The first loop of \<open>snr\<close> adds up the magnitudes of the bins that are numbers, slot 1025
  left out, and counts them in the double \<open>vals\<close>; the second adds up the squared
  deviations from the mean \<open>L\<close> over the same bins.
\<close>

definition avg_step :: "fft_array \<Rightarrow> dbl \<times> dbl \<Rightarrow> int \<Rightarrow> dbl \<times> dbl" where
  "avg_step fft s i =
     (case s of (avg, vals) \<Rightarrow>
        if i \<noteq> 1025 \<and> d_eq (f_abs (fft i)) (f_abs (fft i))
        then (d_add avg (f_abs (fft i)), d_add vals (Fin 1))
        else (avg, vals))"

definition dev_step :: "fft_array \<Rightarrow> dbl \<Rightarrow> dbl \<Rightarrow> int \<Rightarrow> dbl" where
  "dev_step fft L avg i =
     (if i \<noteq> 1025 \<and> d_eq (f_abs (fft i)) (f_abs (fft i))
      then d_add avg (d_pow2 (d_sub (f_abs (fft i)) L))
      else avg)"

definition snr :: "fft_array \<Rightarrow> result_pa \<Rightarrow> int \<Rightarrow> int \<times> result_pa \<times> int" where
  "snr fft res pitch_errno =
     (case foldl (avg_step fft) (Fin 0, Fin 0) [LO_INDEX..HI_INDEX] of (avg, vals) \<Rightarrow>
        if d_lt vals (Fin (1 / 2)) then (PITCH_RET_ERR, res, PITCH_ERR_ALLNANS)
        else
          let L = d_div avg vals;
              res1 = res\<lparr>r_avg_amp := L\<rparr>;
              avg2 = foldl (dev_step fft L) (Fin 0) [LO_INDEX..HI_INDEX];
              sigma = d_pow_half (d_div avg2 vals)
          in if d_le sigma (Fin (1 / 10 ^ 10)) then (PITCH_RET_ERR, res1, PITCH_ERR_SIGMA)
             else
               let res2 = res1\<lparr>r_snr := d_div (d_sub (r_amp res1) L) sigma\<rparr>
               in if d_eq (r_snr res2) (r_snr res2)
                  then (PITCH_RET_OK, res2, pitch_errno)
                  else (PITCH_RET_NAN, res2, pitch_errno))"

text \<open>
  What the two passes are meant to compute, in the words of the specification: the set of
  valid bins, the mean magnitude over it and the population standard deviation over it.
\<close>

definition valid_bins :: "fft_array \<Rightarrow> int list" where
  "valid_bins fft = filter (\<lambda>i. i \<noteq> 1025 \<and> is_number (f_abs (fft i))) [LO_INDEX..HI_INDEX]"

definition d_sum :: "dbl list \<Rightarrow> dbl" where
  "d_sum xs = foldl d_add (Fin 0) xs"

definition spec_mean :: "fft_array \<Rightarrow> dbl" where
  "spec_mean fft =
     d_div (d_sum (map (\<lambda>i. f_abs (fft i)) (valid_bins fft)))
           (Fin (real (length (valid_bins fft))))"

definition spec_sigma :: "fft_array \<Rightarrow> dbl" where
  "spec_sigma fft =
     d_pow_half
       (d_div (d_sum (map (\<lambda>i. d_pow2 (d_sub (f_abs (fft i)) (spec_mean fft))) (valid_bins fft)))
              (Fin (real (length (valid_bins fft)))))"

text \<open>The real number a finite double stands for.\<close>

fun fin_val :: "dbl \<Rightarrow> real" where
  "fin_val (Fin x) = x"
| "fin_val _ = 0"

section \<open>\<open>pitch::fwhm\<close>\<close>

text \<open>
  The two \<open>while\<close> scans of \<open>fwhm\<close>.  Each leaves its result variable at the initial
  \<open>0\<close> when it runs off the window, and sets it at the \<open>break\<close> otherwise.
\<close>

function scan_hi :: "fft_array \<Rightarrow> dbl \<Rightarrow> int \<Rightarrow> int" where
  "scan_hi fft limit i =
     (if i \<le> HI_INDEX
      then (if i \<noteq> 1025 \<and> d_lt (f_abs (fft i)) limit then i - 1
            else scan_hi fft limit (i + 1))
      else 0)"
  by pat_completeness auto
termination
  by (relation "measure (\<lambda>(fft, limit, i). nat (HI_INDEX + 1 - i))") auto

function scan_lo :: "fft_array \<Rightarrow> dbl \<Rightarrow> int \<Rightarrow> int" where
  "scan_lo fft limit i =
     (if i \<ge> LO_INDEX
      then (if i \<noteq> 1025 \<and> d_lt (f_abs (fft i)) limit then i + 1
            else scan_lo fft limit (i - 1))
      else 0)"
  by pat_completeness auto
termination
  by (relation "measure (\<lambda>(fft, limit, i). nat (i + 1 - LO_INDEX))") auto

text \<open>
  The equations of the two scans are applied where a proof asks for them.
\<close>

declare scan_hi.simps [simp del] scan_lo.simps [simp del]

definition fwhm_limit :: "result_pa \<Rightarrow> dbl" where
  "fwhm_limit res = d_sub (r_amp res) (d_div (d_sub (r_amp res) (r_avg_amp res)) (Fin 2))"

definition fwhm :: "fft_array \<Rightarrow> result_pa \<Rightarrow> int \<Rightarrow> int \<times> result_pa \<times> int" where
  "fwhm fft res pitch_errno =
     (if r_index res < LO_INDEX \<or> r_index res > HI_INDEX
      then (PITCH_RET_ERR, res, PITCH_ERR_INVALID)
      else
        let limit = fwhm_limit res;
            hi = scan_hi fft limit (r_index res + 1);
            lo = scan_lo fft limit (r_index res - 1)
        in if hi = 0 \<or> lo = 0 then (PITCH_RET_ERR, res, PITCH_ERR_SCANFWHM)
           else
             let res1 = res\<lparr>r_fwhm := Fin (of_int (hi - lo + 1))\<rparr>
             in if d_eq (r_fwhm res1) (r_fwhm res1)
                then (PITCH_RET_OK, res1, pitch_errno)
                else (PITCH_RET_NAN, res1, pitch_errno))"

text \<open>A bin is below the limit when the scan stops at it: it is not slot 1025 and its
  magnitude compares less than the limit.\<close>

definition below :: "fft_array \<Rightarrow> dbl \<Rightarrow> int \<Rightarrow> bool" where
  "below fft limit i = (i \<noteq> 1025 \<and> d_lt (f_abs (fft i)) limit)"

section \<open>The analysis of one mode and radius in \<open>main\<close>\<close>

text \<open>
  The part of \<open>main\<close> that calls the three functions of the pitch class on
  \<open>mode_data[mode][radius]\<close>.  Besides the record and \<open>pitch_errno\<close> the model returns
  the list of the calls made, each with its status, in the order they were made.
\<close>

datatype stage = Stage_pitch_phase | Stage_snr | Stage_fwhm

definition analyse :: "fft_array \<Rightarrow> int \<Rightarrow> result_pa \<Rightarrow> int \<Rightarrow> result_pa \<times> int \<times> (stage \<times> int) list" where
  "analyse fft mode res pitch_errno =
     (case pitch_phase fft mode res pitch_errno of (status, res1, e1) \<Rightarrow>
        if status = PITCH_RET_ERR \<or> status = PITCH_RET_NAN
        then (res1\<lparr>r_index := 0, r_freq := NaN, r_amp := NaN, r_avg_amp := NaN,
                    r_pa := NaN, r_phase := NaN, r_snr := NaN, r_fwhm := NaN\<rparr>,
              e1, [(Stage_pitch_phase, status)])
        else
          (case snr fft res1 e1 of (status2, res2, e2) \<Rightarrow>
             if status2 = PITCH_RET_ERR
             then (res2\<lparr>r_avg_amp := NaN, r_snr := NaN, r_fwhm := NaN\<rparr>,
                   e2, [(Stage_pitch_phase, status), (Stage_snr, status2)])
             else
               (case fwhm fft res2 e2 of (status3, res3, e3) \<Rightarrow>
                  if status3 = PITCH_RET_ERR
                  then (res3\<lparr>r_fwhm := NaN\<rparr>, e3,
                        [(Stage_pitch_phase, status), (Stage_snr, status2), (Stage_fwhm, status3)])
                  else (res3, e3,
                        [(Stage_pitch_phase, status), (Stage_snr, status2), (Stage_fwhm, status3)]))))"

section \<open>The frequency remap in \<open>main\<close>\<close>

text \<open>
  The constants of \<open>globals.h\<close>, which is not among the sources, are parameters of the
  model: the radial dimension \<open>DIM_RAD\<close> (2048 in \<open>p2txt2fits.c\<close>), the frequency step
  \<open>STEP_P\<close>, the frequency bounds \<open>FREQ_START\<close> and \<open>FREQ_END\<close>, and the mode range
  \<open>M_INI\<close> to \<open>M_FIN\<close>.
\<close>

record globals =
  DIM_RAD :: nat
  STEP_P :: real
  FREQ_START :: real
  FREQ_END :: real
  M_INI :: int
  M_FIN :: int

text \<open>
  The constants as the comments of \<open>p2dfft.cpp\<close> describe them: frequencies from -50 to
  50 in steps of 0.25 on 2048 radial samples, modes 0 to 6.
\<close>

definition documented :: globals where
  "documented = \<lparr>DIM_RAD = 2048, STEP_P = 1 / 4, FREQ_START = - 50, FREQ_END = 50,
                  M_INI = 0, M_FIN = 6\<rparr>"

text \<open>
  \<open>out_data[current]\<close> is an array of \<open>fftw_complex\<close>, a pair of doubles: component 0
  the real part, component 1 the imaginary part.
\<close>

type_synonym out_array = "int \<Rightarrow> dbl \<times> dbl"

definition magnitude :: "dbl \<times> dbl \<Rightarrow> dbl" where
  "magnitude c = d_sqrt (d_add (d_pow2 (fst c)) (d_pow2 (snd c)))"

text \<open>The three assignments that write \<open>out_data[current][counter]\<close> into a slot.\<close>

definition remap_write :: "out_array \<Rightarrow> fft_array \<Rightarrow> int \<Rightarrow> int \<Rightarrow> fft_array" where
  "remap_write out fft slot counter =
     (let fft1 = fft(slot := (fft slot)\<lparr>f_real := fst (out counter)\<rparr>);
          fft2 = fft1(slot := (fft1 slot)\<lparr>f_imag := d_mul (Fin (- 1)) (snd (out counter))\<rparr>);
          fft3 = fft2(slot := (fft2 slot)\<lparr>f_abs := magnitude (out counter)\<rparr>)
      in fft3)"

definition remap_step :: "out_array \<Rightarrow> int \<Rightarrow> fft_array \<times> int \<Rightarrow> int \<Rightarrow> fft_array \<times> int" where
  "remap_step out N s cont_p =
     (case s of (fft, counter) \<Rightarrow>
        (remap_write out fft (cont_p + (N div 2) + 1) counter, counter + 1))"

definition remap :: "nat \<Rightarrow> out_array \<Rightarrow> int \<Rightarrow> fft_array \<Rightarrow> fft_array" where
  "remap dim_rad out mode fft =
     (let N = int dim_rad;
          counter0 = mode * N;
          s1 = foldl (remap_step out N) (fft, counter0) [0..N div 2 - 1];
          fft1 = fst s1;
          counter1 = snd s1;
          fft2 = remap_write out fft1 (N + 1) counter1;
          fft3 = fft2(1 := (fft2 1)\<lparr>f_abs := magnitude (out counter1)\<rparr>);
          counter2 = counter1 + 1;
          s2 = foldl (remap_step out N) (fft3, counter2) [(- 1) * (N div 2) + 1..- 1]
      in fst s2)"

text \<open>The record a slot holds after bin \<open>c\<close> of the native output was written into it.\<close>

definition written :: "out_array \<Rightarrow> int \<Rightarrow> fft_out \<Rightarrow> fft_out" where
  "written out c old =
     old\<lparr>f_real := fst (out c), f_imag := d_mul (Fin (- 1)) (snd (out c)),
         f_abs := magnitude (out c)\<rparr>"

section \<open>Frequency labels, the summed spectrum and the high-pass filter in \<open>main\<close>\<close>

text \<open>
  \<open>fft_sum\<close> is indexed by mode and by frequency step; only its \<open>abs\<close> fields change
  after the start of the program, so the model keeps those.  A row has \<open>lim\<close> entries;
  the model does not bound the running index, which with the documented constants counts
  the 401 slots from 825 to 1225 and stays below \<open>lim = 401\<close>.
\<close>

type_synonym sum_array = "int \<Rightarrow> int \<Rightarrow> dbl"

definition freq_save_of :: "globals \<Rightarrow> int \<Rightarrow> real" where
  "freq_save_of g jm =
     (- 1) * STEP_P g * real (DIM_RAD g) / 2 + real_of_int (jm - 1) * STEP_P g"

definition in_bounds :: "globals \<Rightarrow> int \<Rightarrow> bool" where
  "in_bounds g jm = (freq_save_of g jm \<ge> FREQ_START g \<and> freq_save_of g jm \<le> FREQ_END g)"

definition in_band :: "int \<Rightarrow> real \<Rightarrow> bool" where
  "in_band mode freq_save =
     (freq_save < real_of_int mode * 0.25 \<and> freq_save > real_of_int mode * (- 0.25))"

definition high_pass_step :: "int \<Rightarrow> int \<Rightarrow> real \<Rightarrow> fft_out \<Rightarrow> fft_out" where
  "high_pass_step high_pass mode freq_save b =
     (if high_pass \<noteq> 0 \<and> in_band mode freq_save
      then b\<lparr>f_abs := Fin 0, f_real := Fin 0, f_imag := Fin 0\<rparr>
      else b)"

type_synonym freq_state = "fft_array \<times> sum_array \<times> int"

definition freq_step :: "globals \<Rightarrow> int \<Rightarrow> int \<Rightarrow> freq_state \<Rightarrow> int \<Rightarrow> freq_state" where
  "freq_step g high_pass mode s jm =
     (case s of (fft, fft_sum, sum_ptr) \<Rightarrow>
        let freq_save = freq_save_of g jm
        in if freq_save \<ge> FREQ_START g \<and> freq_save \<le> FREQ_END g
           then
             let fft_sum1 =
                   (if d_eq (f_abs (fft jm)) (f_abs (fft jm))
                    then fft_sum(mode := (fft_sum mode)
                                   (sum_ptr := d_add (fft_sum mode sum_ptr) (f_abs (fft jm))))
                    else fft_sum);
                 fft1 = fft(jm := (fft jm)\<lparr>f_freq := Fin freq_save\<rparr>);
                 fft2 = fft1(jm := high_pass_step high_pass mode freq_save (fft1 jm))
             in (fft2, fft_sum1, sum_ptr + 1)
           else (fft, fft_sum, sum_ptr))"

definition freq_loop :: "globals \<Rightarrow> int \<Rightarrow> int \<Rightarrow> fft_array \<Rightarrow> sum_array \<Rightarrow> freq_state" where
  "freq_loop g high_pass mode fft fft_sum =
     foldl (freq_step g high_pass mode) (fft, fft_sum, 0) [1..int (DIM_RAD g) + 1]"

text \<open>
  The record of slot \<open>jm\<close> after the body of the frequency loop has run on it: the
  frequency label is set, then the high-pass filter is applied.
\<close>

definition labelled :: "globals \<Rightarrow> int \<Rightarrow> int \<Rightarrow> int \<Rightarrow> fft_out \<Rightarrow> fft_out" where
  "labelled g high_pass mode jm b =
     high_pass_step high_pass mode (freq_save_of g jm) (b\<lparr>f_freq := Fin (freq_save_of g jm)\<rparr>)"

text \<open>
  One pass of the mode loop on a worker's buffer: the remap of the mode's slice, then the
  frequency loop.  The state is the worker's \<open>fft_data\<close> buffer and \<open>fft_sum\<close>.
\<close>

definition mode_pass :: "globals \<Rightarrow> int \<Rightarrow> fft_array \<times> sum_array \<Rightarrow> out_array \<times> int \<Rightarrow> fft_array \<times> sum_array" where
  "mode_pass g high_pass s c =
     (case s of (fft, fft_sum) \<Rightarrow>
        case c of (out, mode) \<Rightarrow>
          let fft1 = remap (DIM_RAD g) out mode fft;
              s1 = freq_loop g high_pass mode fft1 fft_sum
          in (fst s1, fst (snd s1)))"

text \<open>
  The reset at the start of a file: \<open>lim\<close> entries of every mode from \<open>M_INI\<close> to
  \<open>M_FIN\<close> are set to zero.  The cast to \<open>int\<close> of the non-negative double truncates.
\<close>

definition lim :: "globals \<Rightarrow> int" where
  "lim g = \<lfloor>(\<bar>FREQ_START g\<bar> + \<bar>FREQ_END g\<bar>) * 4\<rfloor> + 1"

definition reset_sum :: "globals \<Rightarrow> sum_array \<Rightarrow> sum_array" where
  "reset_sum g fft_sum =
     foldl (\<lambda>s i. foldl (\<lambda>s j. s(j := (s j)(i := Fin 0))) s [M_INI g..M_FIN g])
           fft_sum [0..lim g - 1]"

text \<open>
  The contributions of a file to the summed spectrum, one for each mode of each radius,
  in the order they are made.
\<close>

definition contributions :: "globals \<Rightarrow> int \<Rightarrow> fft_array \<Rightarrow> sum_array \<Rightarrow> (out_array \<times> int) list \<Rightarrow> fft_array \<times> sum_array" where
  "contributions g high_pass fft fft_sum cs =
     foldl (mode_pass g high_pass) (fft, reset_sum g fft_sum) cs"

text \<open>
  The values an entry of the summed spectrum can take: any number but minus infinity.
\<close>

definition sum_value :: "dbl \<Rightarrow> bool" where
  "sum_value x = (x \<noteq> NaN \<and> x \<noteq> NInf)"

section \<open>The fixed-width annulus rule of the sampler in \<open>main\<close>\<close>

text \<open>
  The locals of one pass of the radius loop that the sampler's rules read.  A local that
  was declared and not assigned holds no value: \<open>None\<close>.  The pass declares \<open>log_lo\<close>,
  \<open>log_hi\<close> and \<open>log_rad\<close>, and assigns \<open>log_rad\<close> before the loop over the samples; the file
  has no assignment to \<open>log_lo\<close> or \<open>log_hi\<close>.
\<close>

record sampler_locals =
  log_lo :: "dbl option"
  log_hi :: "dbl option"
  log_rad :: "dbl option"

fun d_log :: "dbl \<Rightarrow> dbl" where
  "d_log (Fin x) = (if 0 < x then Fin (ln x) else if x = 0 then NInf else NaN)"
| "d_log PInf = PInf"
| "d_log NInf = NaN"
| "d_log NaN = NaN"

definition declared :: sampler_locals where
  "declared = \<lparr>log_lo = None, log_hi = None, log_rad = None\<rparr>"

definition radius_locals :: "int \<Rightarrow> int \<Rightarrow> int \<Rightarrow> sampler_locals" where
  "radius_locals reverse items_radius radius =
     (if reverse \<noteq> 0
      then declared\<lparr>log_rad := Some (d_log (Fin (of_int (items_radius - radius + 1))))\<rparr>
      else declared\<lparr>log_rad := Some (d_log (Fin (of_int radius)))\<rparr>)"

text \<open>
  The test \<open>fixed && (lnr>log_hi || lnr<log_lo)\<close> with C's evaluation order; the result
  is \<open>None\<close> when the test reads a local that holds no value.
\<close>

definition fixed_cutoff :: "int \<Rightarrow> dbl \<Rightarrow> sampler_locals \<Rightarrow> bool option" where
  "fixed_cutoff fixed lnr l =
     (if fixed = 0 then Some False
      else case log_hi l of
             None \<Rightarrow> None
           | Some h \<Rightarrow>
               if d_gt lnr h then Some True
               else (case log_lo l of None \<Rightarrow> None | Some lo \<Rightarrow> Some (d_lt lnr lo)))"

section \<open>Inputs for the examples\<close>

text \<open>
  An array whose magnitudes are all NaN except for the value \<open>v\<close> at slot 1025, and a
  result record of zeros.
\<close>

definition dc_only :: "dbl \<Rightarrow> fft_array" where
  "dc_only v = (\<lambda>i. \<lparr>f_real = NaN, f_imag = NaN, f_abs = (if i = 1025 then v else NaN), f_freq = Fin 0\<rparr>)"

definition res0 :: result_pa where
  "res0 = \<lparr>r_index = 0, r_freq = Fin 0, r_amp = Fin 0, r_avg_amp = Fin 0, r_pa = Fin 0,
           r_phase = Fin 0, r_snr = Fin 0, r_fwhm = Fin 0\<rparr>"

text \<open>An array with a single peak of height 5 at slot 1000, frequency \<open>-6.25\<close>, over a floor of 1.\<close>

definition one_peak :: fft_array where
  "one_peak = (\<lambda>i. \<lparr>f_real = Fin 1, f_imag = Fin 0, f_abs = (if i = 1000 then Fin 5 else Fin 1),
                      f_freq = Fin (- 25 / 4)\<rparr>)"

text \<open>
  An array labelled as the frequency loop labels a buffer with the documented constants,
  slots 825 to 1225 with a quarter of their distance from slot 1025, and with NaN labels
  elsewhere; its peak of height 5 sits at slot 824, over a floor of 1.
\<close>

definition edge_peak :: fft_array where
  "edge_peak = (\<lambda>i. \<lparr>f_real = Fin 1, f_imag = Fin 0, f_abs = (if i = 824 then Fin 5 else Fin 1),
                       f_freq = (if 825 \<le> i \<and> i \<le> 1225 then Fin (real_of_int (i - 1025) / 4)
                                 else NaN)\<rparr>)"

text \<open>A native output whose bin \<open>i\<close> is the complex number \<open>i + 1i\<close>.\<close>

definition ramp_out :: out_array where
  "ramp_out = (\<lambda>i. (Fin (of_int i), Fin 1))"

text \<open>A summed spectrum and a native output that hold NaN everywhere.\<close>

definition nan_sum :: sum_array where
  "nan_sum = (\<lambda>m i. NaN)"

definition nan_out :: out_array where
  "nan_out = (\<lambda>i. (NaN, NaN))"

text \<open>
  A plateau of height 5 on slots 1023 to 1027 over a floor of 1, with a magnitude of zero
  at slot 1025, and the record \<open>pitch_phase\<close> and \<open>snr\<close> leave for a maximum at slot
  \<open>idx\<close> of height 5 over an average of 1.
\<close>

definition plateau :: fft_array where
  "plateau = (\<lambda>i. \<lparr>f_real = Fin 1, f_imag = Fin 0,
                     f_abs = (if i = 1025 then Fin 0
                              else if 1023 \<le> i \<and> i \<le> 1027 then Fin 5 else Fin 1),
                     f_freq = Fin 0\<rparr>)"

definition res_at :: "int \<Rightarrow> result_pa" where
  "res_at idx = \<lparr>r_index = idx, r_freq = Fin 0, r_amp = Fin 5, r_avg_amp = Fin 1, r_pa = Fin 0,
                 r_phase = Fin 0, r_snr = Fin 0, r_fwhm = Fin 0\<rparr>"

text \<open>
  An array whose magnitudes are NaN except for \<open>v\<close> at slot 1000 and \<open>w\<close> at slot 1001,
  and a zero at slot 1025.
\<close>

definition two_bins :: "dbl \<Rightarrow> dbl \<Rightarrow> fft_array" where
  "two_bins v w = (\<lambda>i. \<lparr>f_real = Fin 1, f_imag = Fin 0,
                         f_abs = (if i = 1000 then v else if i = 1001 then w
                                  else if i = 1025 then Fin 0 else NaN),
                         f_freq = Fin 0\<rparr>)"

section \<open>Facts about the scan\<close>

lemma d_eq_self_iff: "d_eq a a \<longleftrightarrow> a \<noteq> NaN"
  by (cases a) simp_all

lemma d_lt_NaN_right [simp]: "d_lt a NaN = False"
  by (cases a) simp_all

lemma d_gt_NaN_left [simp]: "d_gt NaN a = False"
  by (simp add: d_gt_def)

lemma set_window: "set [LO_INDEX..HI_INDEX] = window"
  by (simp add: window_def)

text \<open>One step of the scan, component by component.\<close>

lemma scan_step_nan:
  "fst (scan_step fft (nan, index, a_max) i) = (if is_number (f_abs (fft i)) then 0 else nan)"
  by (simp add: scan_step_def Let_def is_number_def)

lemma scan_step_rest:
  "snd (scan_step fft (nan, index, a_max) i) =
     (if d_gt (f_abs (fft i)) a_max \<and> i \<noteq> 1025 then (i, f_abs (fft i)) else (index, a_max))"
  by (simp add: scan_step_def Let_def)

text \<open>The three components of the state after scanning a list of indices.\<close>

lemma scan_nan_flag:
  "fst (foldl (scan_step fft) (nan, index, a_max) xs) =
     (if \<exists>i\<in>set xs. is_number (f_abs (fft i)) then 0 else nan)"
proof (induction xs arbitrary: nan index a_max)
  case Nil
  show ?case by simp
next
  case (Cons x xs)
  obtain n' i' a' where st: "scan_step fft (nan, index, a_max) x = (n', i', a')"
    by (cases "scan_step fft (nan, index, a_max) x") auto
  have n': "n' = (if is_number (f_abs (fft x)) then 0 else nan)"
    using scan_step_nan [of fft nan index a_max x] st by simp
  show ?case
    using Cons.IH [of n' i' a'] by (simp add: st n')
qed

lemma scan_no_candidate:
  assumes "\<forall>i\<in>set xs. i = 1025 \<or> \<not> d_gt (f_abs (fft i)) a_max"
  shows "snd (foldl (scan_step fft) (nan, index, a_max) xs) = (index, a_max)"
  using assms
proof (induction xs arbitrary: nan)
  case Nil
  show ?case by simp
next
  case (Cons x xs)
  obtain n' i' a' where st: "scan_step fft (nan, index, a_max) x = (n', i', a')"
    by (cases "scan_step fft (nan, index, a_max) x") auto
  have "(i', a') = (index, a_max)"
    using scan_step_rest [of fft nan index a_max x] st Cons.prems by auto
  then show ?case
    using Cons.IH [of n'] Cons.prems by (simp add: st)
qed

lemma scan_window_no_max:
  assumes "\<forall>i\<in>set [LO_INDEX..HI_INDEX]. i = 1025 \<or> \<not> d_gt (f_abs (fft i)) (Fin (- 255))"
  shows "scan_window fft = (if window_has_number fft then 0 else 1, - 1, Fin (- 255))"
proof -
  have "fst (scan_window fft) = (if window_has_number fft then 0 else 1)"
    unfolding scan_window_def window_has_number_def by (rule scan_nan_flag)
  moreover have "snd (scan_window fft) = (- 1, Fin (- 255))"
    unfolding scan_window_def using assms by (rule scan_no_candidate)
  ultimately show ?thesis by (simp add: prod_eq_iff)
qed

lemma pitch_phase_no_max:
  assumes "\<forall>i\<in>set [LO_INDEX..HI_INDEX]. i = 1025 \<or> \<not> d_gt (f_abs (fft i)) (Fin (- 255))"
    and "window_has_number fft"
  shows "pitch_phase fft mode res e = (0, res, PITCH_ERR_MAX_AMP)"
  using assms by (simp add: pitch_phase_def scan_window_no_max)

lemma pitch_phase_all_nan:
  assumes "\<not> window_has_number fft"
  shows "pitch_phase fft mode res e = (PITCH_RET_NAN, res, e)"
proof -
  have "fst (scan_window fft) = 1"
    unfolding scan_window_def using assms scan_nan_flag [of fft 1 "- 1" "Fin (- 255)" "[LO_INDEX..HI_INDEX]"]
    by (simp add: window_has_number_def)
  then show ?thesis
    by (cases "scan_window fft") (simp add: pitch_phase_def)
qed

lemma in_window_1025: "1025 \<in> set [LO_INDEX..HI_INDEX]"
  by (simp add: LO_INDEX_def HI_INDEX_def)

section \<open>Windows without a number\<close>

text \<open>
  C5.  When no magnitude of the window is a number, \<open>pitch_phase\<close> returns
  \<open>PITCH_RET_NAN\<close>, which is not \<open>PITCH_RET_ERR\<close>, and leaves the record and
  \<open>pitch_errno\<close> as they were; the caller then sets the index to 0 and the seven
  statistics (frequency, amplitude, average amplitude, pitch angle, phase, SNR, FWHM) to
  NaN, and the only call it has made is the one to \<open>pitch_phase\<close>: neither \<open>snr\<close> nor
  \<open>fwhm\<close> runs, and no status is \<open>PITCH_RET_ERR\<close>.
\<close>

theorem all_nan_window:
  assumes "\<not> window_has_number fft"
  shows "pitch_phase fft mode res e = (PITCH_RET_NAN, res, e) \<and>
         PITCH_RET_NAN \<noteq> PITCH_RET_ERR \<and>
         analyse fft mode res e =
           (res\<lparr>r_index := 0, r_freq := NaN, r_amp := NaN, r_avg_amp := NaN,
                r_pa := NaN, r_phase := NaN, r_snr := NaN, r_fwhm := NaN\<rparr>,
            e, [(Stage_pitch_phase, PITCH_RET_NAN)])"
  using pitch_phase_all_nan [OF assms]
  by (simp add: analyse_def PITCH_RET_NAN_def PITCH_RET_ERR_def)

theorem all_nan_window_witness:
  "\<not> window_has_number (dc_only NaN) \<and>
   pitch_phase (dc_only NaN) 2 res0 0 = (PITCH_RET_NAN, res0, 0) \<and>
   fst (snd (analyse (dc_only NaN) 2 res0 0)) = 0 \<and>
   snd (snd (analyse (dc_only NaN) 2 res0 0)) = [(Stage_pitch_phase, PITCH_RET_NAN)]"
proof -
  have h: "\<not> window_has_number (dc_only NaN)"
    by (simp add: window_has_number_def dc_only_def is_number_def)
  show ?thesis using h all_nan_window [OF h, of 2 res0 0] by simp
qed

section \<open>Order facts of the comparison\<close>

lemma d_lt_irrefl: "\<not> d_lt a a"
  by (cases a) simp_all

lemma d_lt_trans: "d_lt a b \<Longrightarrow> d_lt b c \<Longrightarrow> d_lt a c"
  by (cases a; cases b; cases c) simp_all

lemma d_lt_asym: "d_lt a b \<Longrightarrow> \<not> d_lt b a"
  using d_lt_trans d_lt_irrefl by blast

lemma d_gt_irrefl: "\<not> d_gt a a"
  by (simp add: d_gt_def d_lt_irrefl)

lemma d_gt_trans: "d_gt a b \<Longrightarrow> d_gt b c \<Longrightarrow> d_gt a c"
  unfolding d_gt_def by (rule d_lt_trans)

lemma d_gt_asym: "d_gt a b \<Longrightarrow> \<not> d_gt b a"
  unfolding d_gt_def by (rule d_lt_asym)

lemma d_gt_is_number: "d_gt a b \<Longrightarrow> is_number a"
  by (cases a; cases b) (simp_all add: d_gt_def is_number_def)

section \<open>The maximum found by the scan\<close>

lemma scan_result:
  assumes "foldl (scan_step fft) (nan, index, a_max) xs = (n, idx, am)"
  shows "(\<forall>i\<in>set xs. i = 1025 \<or> \<not> d_gt (f_abs (fft i)) am) \<and>
         ((idx = index \<and> am = a_max) \<or>
          (idx \<in> set xs \<and> idx \<noteq> 1025 \<and> am = f_abs (fft idx) \<and> d_gt am a_max))"
  using assms
proof (induction xs arbitrary: nan index a_max)
  case Nil
  then show ?case by simp
next
  case (Cons x xs)
  obtain n' i' a' where st: "scan_step fft (nan, index, a_max) x = (n', i', a')"
    by (cases "scan_step fft (nan, index, a_max) x") auto
  have rest: "(i', a') =
      (if d_gt (f_abs (fft x)) a_max \<and> x \<noteq> 1025 then (x, f_abs (fft x)) else (index, a_max))"
    using scan_step_rest [of fft nan index a_max x] st by simp
  have fold: "foldl (scan_step fft) (n', i', a') xs = (n, idx, am)"
    using Cons.prems st by simp
  note IH = Cons.IH [OF fold]
  show ?case
  proof (cases "d_gt (f_abs (fft x)) a_max \<and> x \<noteq> 1025")
    case True
    then have eq: "i' = x" "a' = f_abs (fft x)" using rest by simp_all
    have disj: "am = f_abs (fft x) \<or> d_gt am (f_abs (fft x))"
      using IH eq by blast
    have nx: "\<not> d_gt (f_abs (fft x)) am"
      using disj d_gt_irrefl [of am] d_gt_asym [of am "f_abs (fft x)"] by blast
    have up: "d_gt am a_max" if "d_gt am a'"
      using that True eq d_gt_trans [of am "f_abs (fft x)" a_max] by simp
    from IH have "(idx = x \<and> am = f_abs (fft x)) \<or>
        (idx \<in> set xs \<and> idx \<noteq> 1025 \<and> am = f_abs (fft idx) \<and> d_gt am a')"
      using eq by simp
    then have B: "idx \<in> set (x # xs) \<and> idx \<noteq> 1025 \<and> am = f_abs (fft idx) \<and> d_gt am a_max"
      using True up eq by auto
    have A: "\<forall>i\<in>set (x # xs). i = 1025 \<or> \<not> d_gt (f_abs (fft i)) am"
      using IH nx by simp
    show ?thesis using A B by blast
  next
    case False
    then have eq: "i' = index" "a' = a_max" using rest by auto
    have disj: "am = a_max \<or> d_gt am a_max"
      using IH eq by blast
    have "x = 1025 \<or> \<not> d_gt (f_abs (fft x)) am"
      using disj False d_gt_trans [of "f_abs (fft x)" am a_max] by blast
    then show ?thesis using IH eq by auto
  qed
qed

lemma scan_finds:
  assumes sw: "foldl (scan_step fft) (1, - 1, Fin (- 255)) xs = (n, idx, am)"
    and c: "c \<in> set xs" "c \<noteq> 1025" "d_gt (f_abs (fft c)) (Fin (- 255))"
  shows "n = 0 \<and> idx \<in> set xs \<and> idx \<noteq> 1025 \<and> am = f_abs (fft idx) \<and>
         (\<forall>i\<in>set xs. i = 1025 \<or> \<not> d_gt (f_abs (fft i)) am)"
proof -
  have num: "\<exists>i\<in>set xs. is_number (f_abs (fft i))"
    using c(1) d_gt_is_number [OF c(3)] by (rule_tac x = c in bexI)
  have n: "n = 0"
    using scan_nan_flag [of fft 1 "- 1" "Fin (- 255)" xs] num by (simp only: sw fst_conv if_True)
  note r = scan_result [OF sw]
  from r have mx: "\<forall>i\<in>set xs. i = 1025 \<or> \<not> d_gt (f_abs (fft i)) am" by (rule conjunct1)
  have "\<not> d_gt (f_abs (fft c)) am" using mx c(1) c(2) by (simp only: Ball_def) blast
  then have ne: "am \<noteq> Fin (- 255)" using c(3) by (rule_tac notI) simp
  from conjunct2 [OF r]
  have "idx \<in> set xs \<and> idx \<noteq> 1025 \<and> am = f_abs (fft idx) \<and> d_gt am (Fin (- 255))"
  proof
    assume "idx = - 1 \<and> am = Fin (- 255)"
    with ne show ?thesis by simp
  next
    assume "idx \<in> set xs \<and> idx \<noteq> 1025 \<and> am = f_abs (fft idx) \<and> d_gt am (Fin (- 255))"
    then show ?thesis .
  qed
  then show ?thesis using n mx by (simp only: simp_thms)
qed

lemma scan_window_finds:
  assumes cand: "\<exists>i\<in>set [LO_INDEX..HI_INDEX]. i \<noteq> 1025 \<and> d_gt (f_abs (fft i)) (Fin (- 255))"
  obtains idx am where "scan_window fft = (0, idx, am)"
    and "idx \<in> set [LO_INDEX..HI_INDEX]" and "idx \<noteq> 1025" and "am = f_abs (fft idx)"
    and "\<forall>i\<in>set [LO_INDEX..HI_INDEX]. i = 1025 \<or> \<not> d_gt (f_abs (fft i)) am"
proof -
  obtain n idx am where sw: "scan_window fft = (n, idx, am)"
    by (cases "scan_window fft") auto
  from cand obtain c where c: "c \<in> set [LO_INDEX..HI_INDEX]" "c \<noteq> 1025"
    "d_gt (f_abs (fft c)) (Fin (- 255))" by (elim bexE conjE)
  note f = scan_finds [OF sw [unfolded scan_window_def] c]
  have "scan_window fft = (0, idx, am)" using sw f by (simp only:)
  then show ?thesis using that f by (elim conjE) 
qed

section \<open>The range of the pitch angle\<close>

lemma atan2_real_range:
  assumes "0 \<le> y"
  shows "0 \<le> atan2_real y x \<and> atan2_real y x \<le> pi"
proof -
  have ub: "arctan (y / x) < pi / 2" by (rule arctan_ubound)
  have lb: "- (pi / 2) < arctan (y / x)" by (rule arctan_lbound)
  consider "0 < x" | "x < 0" | "x = 0" by linarith
  then show ?thesis
  proof cases
    case 1
    then have "0 \<le> y / x" using assms by simp
    then have "0 \<le> arctan (y / x)" by (simp only: zero_le_arctan_iff)
    moreover have "arctan (y / x) \<le> pi" using ub pi_gt_zero by linarith
    ultimately show ?thesis using 1 by (simp add: atan2_real_def)
  next
    case 2
    then have "y / x \<le> 0" using assms by (simp add: divide_nonneg_neg)
    then have "arctan (y / x) \<le> 0" by (simp only: arctan_le_zero_iff)
    moreover have "0 \<le> arctan (y / x) + pi" using lb pi_gt_zero by linarith
    ultimately show ?thesis using 2 assms by (simp add: atan2_real_def)
  next
    case 3
    have "0 \<le> pi / 2" "pi / 2 \<le> pi" using pi_gt_zero by simp_all
    then show ?thesis using 3 assms by (simp add: atan2_real_def)
  qed
qed

lemma GR_RAD_nonzero: "GR_RAD \<noteq> 0"
  by (simp add: GR_RAD_def)

lemma degrees_range:
  assumes "0 \<le> a" "a \<le> pi"
  shows "0 \<le> a * (1 / GR_RAD) \<and> a * (1 / GR_RAD) \<le> 180"
proof -
  define t where "t = a / pi"
  have eq: "a * (1 / GR_RAD) = t * 180" by (simp add: GR_RAD_def t_def)
  have "0 \<le> t" using assms by (simp add: t_def)
  moreover have "t \<le> 1" using assms by (simp add: t_def)
  ultimately have "0 \<le> t * 180 \<and> t * 180 \<le> 180" by simp
  then show ?thesis by (simp only: eq)
qed

lemma wrap_degrees:
  assumes "0 \<le> d" "d \<le> (180::real)"
  shows "d_le (d_fabs (if d_gt (d_fabs (Fin d)) (Fin 90) then d_sub (Fin d) (Fin 180) else Fin d))
              (Fin 90)"
  using assms by (auto simp: d_gt_def d_le_def d_sub_def abs_if)

lemma pitch_angle_range:
  assumes "0 \<le> mode" "is_number freq"
  shows "d_le (d_fabs (pitch_angle mode freq)) (Fin 90)"
proof -
  have scale: "d_div (Fin 1) (Fin GR_RAD) = Fin (1 / GR_RAD)"
    by (simp add: GR_RAD_nonzero)
  have "\<exists>a. 0 \<le> a \<and> a \<le> pi \<and> d_atan2 (Fin (of_int mode)) freq = Fin a"
  proof (cases freq)
    case (Fin f)
    then show ?thesis using atan2_real_range [of "of_int mode" f] assms(1) by simp
  next
    case PInf
    then show ?thesis using pi_gt_zero by simp
  next
    case NInf
    then show ?thesis using assms(1) pi_gt_zero by simp
  next
    case NaN
    then show ?thesis using assms(2) by (simp add: is_number_def)
  qed
  then obtain a where a: "0 \<le> a" "a \<le> pi" "d_atan2 (Fin (of_int mode)) freq = Fin a"
    by blast
  define d where "d = a * (1 / GR_RAD)"
  have pa: "d_mul (d_atan2 (Fin (of_int mode)) freq) (d_div (Fin 1) (Fin GR_RAD)) = Fin d"
    by (simp only: a(3) scale d_mul.simps d_def)
  have "0 \<le> d \<and> d \<le> 180" unfolding d_def using a(1,2) by (rule degrees_range)
  then show ?thesis
    unfolding pitch_angle_def Let_def pa using wrap_degrees [of d] by simp
qed

lemma pitch_phase_found:
  assumes "scan_window fft = (0, idx, am)" "0 \<le> idx"
  shows "\<exists>res'. pitch_phase fft mode res e = (PITCH_RET_OK, res', e) \<and>
           r_index res' = idx \<and> r_amp res' = f_abs (fft idx) \<and> r_freq res' = f_freq (fft idx) \<and>
           r_pa res' = pitch_angle mode (f_freq (fft idx))"
  using assms
  by (simp add: pitch_phase_def Let_def pitch_angle_def PITCH_RET_OK_def)

lemma pitch_angle_NaN: "pitch_angle mode NaN = NaN"
  by (simp add: pitch_angle_def Let_def)

lemma pitch_phase_max:
  assumes "\<exists>i\<in>set [LO_INDEX..HI_INDEX]. i \<noteq> 1025 \<and> d_gt (f_abs (fft i)) (Fin (- 255))"
  shows "\<exists>res'. pitch_phase fft mode res e = (PITCH_RET_OK, res', e) \<and>
           r_index res' \<in> window \<and> r_index res' \<noteq> 1025 \<and>
           r_amp res' = f_abs (fft (r_index res')) \<and>
           (\<forall>i\<in>window. i = 1025 \<or> \<not> d_gt (f_abs (fft i)) (r_amp res')) \<and>
           r_freq res' = f_freq (fft (r_index res')) \<and>
           r_pa res' = pitch_angle mode (r_freq res')"
proof -
  from assms obtain idx am where sw: "scan_window fft = (0, idx, am)"
    and idx: "idx \<in> set [LO_INDEX..HI_INDEX]" "idx \<noteq> 1025" and am: "am = f_abs (fft idx)"
    and mx: "\<forall>i\<in>set [LO_INDEX..HI_INDEX]. i = 1025 \<or> \<not> d_gt (f_abs (fft i)) am"
    by (rule scan_window_finds)
  have "0 \<le> idx" using idx(1) by (simp add: LO_INDEX_def)
  from pitch_phase_found [OF sw this, of mode res e]
  obtain res' where r: "pitch_phase fft mode res e = (PITCH_RET_OK, res', e)"
    "r_index res' = idx" "r_amp res' = f_abs (fft idx)" "r_freq res' = f_freq (fft idx)"
    "r_pa res' = pitch_angle mode (f_freq (fft idx))" by blast
  show ?thesis
    using r idx am mx set_window by auto
qed

text \<open>The maximum of \<open>one_peak\<close> is at slot 1000 and that of \<open>edge_peak\<close> at slot 824.\<close>

lemma peak_candidate:
  assumes "p \<in> set [LO_INDEX..HI_INDEX]" "p \<noteq> 1025" "f_abs (fft p) = Fin 5"
  shows "\<exists>i\<in>set [LO_INDEX..HI_INDEX]. i \<noteq> 1025 \<and> d_gt (f_abs (fft i)) (Fin (- 255))"
  by (rule bexI [OF _ assms(1)]) (simp add: assms(2,3) d_gt_def)

lemma peak_found:
  assumes "p \<in> window" "p \<noteq> 1025" "\<forall>i. f_abs (fft i) = (if i = p then Fin 5 else Fin 1)"
    and "r_amp res' = f_abs (fft (r_index res'))"
    and "\<forall>i\<in>window. i = 1025 \<or> \<not> d_gt (f_abs (fft i)) (r_amp res')"
  shows "r_index res' = p"
proof (rule ccontr)
  assume "r_index res' \<noteq> p"
  then have "r_amp res' = Fin 1" using assms(3,4) by simp
  moreover have "\<not> d_gt (f_abs (fft p)) (r_amp res')" using assms(1,2,5) by blast
  ultimately show False using assms(3) by (simp add: d_gt_def)
qed

section \<open>Success of \<open>pitch_phase\<close> and the pitch angle\<close>

text \<open>
  The claim C4 as it is written fails in two ways.  A number anywhere in the window does
  not make \<open>pitch_phase\<close> succeed: when the only number sits at slot 1025, which the
  search for the maximum leaves out, here a magnitude of 3 with mode 2, the status is not
  \<open>PITCH_RET_OK\<close>.  And success does not bound the angle: slots 824 and 1226 belong to the
  window and the frequency loop labels neither, so when the maximum sits at slot 824 over a
  label that is NaN, \<open>pitch_phase\<close> succeeds with mode 2 and stores NaN as the pitch angle,
  whose magnitude is not at most 90.
\<close>

theorem pitch_phase_valid_bin_counterexample:
  "window_has_number (dc_only (Fin 3)) \<and>
   fst (pitch_phase (dc_only (Fin 3)) 2 res0 0) \<noteq> PITCH_RET_OK \<and>
   window_has_number edge_peak \<and>
   fst (pitch_phase edge_peak 2 res0 0) = PITCH_RET_OK \<and>
   r_index (fst (snd (pitch_phase edge_peak 2 res0 0))) = 824 \<and>
   r_pa (fst (snd (pitch_phase edge_peak 2 res0 0))) = NaN \<and>
   \<not> d_le (d_fabs (r_pa (fst (snd (pitch_phase edge_peak 2 res0 0))))) (Fin 90)"
proof -
  have w: "window_has_number (dc_only (Fin 3))"
    unfolding window_has_number_def
    by (rule bexI [OF _ in_window_1025]) (simp add: dc_only_def is_number_def)
  have "\<forall>i\<in>set [LO_INDEX..HI_INDEX]. i = 1025 \<or> \<not> d_gt (f_abs (dc_only (Fin 3) i)) (Fin (- 255))"
    by (simp add: dc_only_def)
  from pitch_phase_no_max [OF this w, of 2 res0 0]
  have a: "fst (pitch_phase (dc_only (Fin 3)) 2 res0 0) \<noteq> PITCH_RET_OK"
    by (simp add: PITCH_RET_OK_def)
  have in_s: "824 \<in> set [LO_INDEX..HI_INDEX]"
    by (simp only: set_upto atLeastAtMost_iff LO_INDEX_def HI_INDEX_def) simp
  then have in_w: "824 \<in> window" by (simp only: set_window)
  have w2: "window_has_number edge_peak"
    unfolding window_has_number_def
    by (rule bexI [OF _ in_s]) (simp add: edge_peak_def is_number_def)
  have cand: "\<exists>i\<in>set [LO_INDEX..HI_INDEX]. i \<noteq> 1025 \<and> d_gt (f_abs (edge_peak i)) (Fin (- 255))"
    by (rule peak_candidate [OF in_s]) (simp_all add: edge_peak_def)
  from pitch_phase_max [OF cand, of 2 res0 0]
  obtain res' where r: "pitch_phase edge_peak 2 res0 0 = (PITCH_RET_OK, res', 0)"
    "r_amp res' = f_abs (edge_peak (r_index res'))"
    "\<forall>i\<in>window. i = 1025 \<or> \<not> d_gt (f_abs (edge_peak i)) (r_amp res')"
    "r_freq res' = f_freq (edge_peak (r_index res'))"
    "r_pa res' = pitch_angle 2 (r_freq res')"
    by blast
  have idx: "r_index res' = 824"
    by (rule peak_found [OF in_w _ _ r(2) r(3)]) (simp_all add: edge_peak_def)
  then have "r_freq res' = NaN" using r(4) by (simp add: edge_peak_def)
  then have pa: "r_pa res' = NaN" using r(5) by (simp add: pitch_angle_NaN)
  show ?thesis using w a w2 r(1) idx pa by (simp add: d_le_def)
qed

text \<open>
  C4, amended.  When some bin of the window other than slot 1025 has a magnitude above
  \<open>-255\<close>, the start value of the search, \<open>pitch_phase\<close> returns \<open>PITCH_RET_OK\<close> and
  leaves \<open>pitch_errno\<close> alone.  The record then holds the index of a bin of the window other
  than slot 1025 whose magnitude no such bin exceeds, that bin's magnitude and frequency
  label, and the pitch angle computed from the mode and that label: the arctangent in
  degrees, less 180 when its magnitude exceeds 90.  When the mode is not negative and the
  label of that bin is a number, the magnitude of the stored angle is at most 90; when the
  label is NaN, the stored angle is NaN.
\<close>

theorem pitch_phase_success:
  assumes "\<exists>i\<in>set [LO_INDEX..HI_INDEX]. i \<noteq> 1025 \<and> d_gt (f_abs (fft i)) (Fin (- 255))"
  shows "\<exists>res'. pitch_phase fft mode res e = (PITCH_RET_OK, res', e) \<and>
           r_index res' \<in> window \<and> r_index res' \<noteq> 1025 \<and>
           r_amp res' = f_abs (fft (r_index res')) \<and>
           (\<forall>i\<in>window. i = 1025 \<or> \<not> d_gt (f_abs (fft i)) (r_amp res')) \<and>
           r_freq res' = f_freq (fft (r_index res')) \<and>
           r_pa res' = pitch_angle mode (r_freq res') \<and>
           (0 \<le> mode \<and> is_number (r_freq res') \<longrightarrow> d_le (d_fabs (r_pa res')) (Fin 90)) \<and>
           (\<not> is_number (r_freq res') \<longrightarrow> r_pa res' = NaN)"
proof -
  from pitch_phase_max [OF assms, of mode res e]
  obtain res' where r: "pitch_phase fft mode res e = (PITCH_RET_OK, res', e)"
    "r_index res' \<in> window" "r_index res' \<noteq> 1025"
    "r_amp res' = f_abs (fft (r_index res'))"
    "\<forall>i\<in>window. i = 1025 \<or> \<not> d_gt (f_abs (fft i)) (r_amp res')"
    "r_freq res' = f_freq (fft (r_index res'))"
    "r_pa res' = pitch_angle mode (r_freq res')"
    by blast
  have bound: "d_le (d_fabs (r_pa res')) (Fin 90)" if "0 \<le> mode \<and> is_number (r_freq res')"
    using that pitch_angle_range [of mode "r_freq res'"] r(7) by simp
  have nan: "r_pa res' = NaN" if "\<not> is_number (r_freq res')"
  proof -
    have "r_freq res' = NaN" using that by (cases "r_freq res'") (simp_all add: is_number_def)
    then show ?thesis using r(7) by (simp add: pitch_angle_NaN)
  qed
  show ?thesis using r bound nan by blast
qed

theorem pitch_phase_success_witness:
  "fst (pitch_phase one_peak 2 res0 0) = PITCH_RET_OK \<and>
   snd (snd (pitch_phase one_peak 2 res0 0)) = 0 \<and>
   r_index (fst (snd (pitch_phase one_peak 2 res0 0))) = 1000 \<and>
   r_amp (fst (snd (pitch_phase one_peak 2 res0 0))) = Fin 5 \<and>
   r_freq (fst (snd (pitch_phase one_peak 2 res0 0))) = Fin (- 25 / 4) \<and>
   r_pa (fst (snd (pitch_phase one_peak 2 res0 0))) = pitch_angle 2 (Fin (- 25 / 4)) \<and>
   d_le (d_fabs (r_pa (fst (snd (pitch_phase one_peak 2 res0 0))))) (Fin 90) \<and>
   fst (pitch_phase edge_peak 2 res0 0) = PITCH_RET_OK \<and>
   r_index (fst (snd (pitch_phase edge_peak 2 res0 0))) = 824 \<and>
   r_freq (fst (snd (pitch_phase edge_peak 2 res0 0))) = NaN \<and>
   r_pa (fst (snd (pitch_phase edge_peak 2 res0 0))) = NaN"
proof -
  have in_s: "1000 \<in> set [LO_INDEX..HI_INDEX]" "824 \<in> set [LO_INDEX..HI_INDEX]"
    by (simp_all only: set_upto atLeastAtMost_iff LO_INDEX_def HI_INDEX_def) simp_all
  then have in_w: "1000 \<in> window" "824 \<in> window" by (simp_all only: set_window)
  have h1: "\<exists>i\<in>set [LO_INDEX..HI_INDEX]. i \<noteq> 1025 \<and> d_gt (f_abs (one_peak i)) (Fin (- 255))"
    by (rule peak_candidate [OF in_s(1)]) (simp_all add: one_peak_def)
  from pitch_phase_success [OF h1, of 2 res0 0]
  obtain res' where r: "pitch_phase one_peak 2 res0 0 = (PITCH_RET_OK, res', 0)"
    "r_amp res' = f_abs (one_peak (r_index res'))"
    "\<forall>i\<in>window. i = 1025 \<or> \<not> d_gt (f_abs (one_peak i)) (r_amp res')"
    "r_freq res' = f_freq (one_peak (r_index res'))"
    "r_pa res' = pitch_angle 2 (r_freq res')"
    "0 \<le> (2::int) \<and> is_number (r_freq res') \<longrightarrow> d_le (d_fabs (r_pa res')) (Fin 90)"
    by blast
  have idx: "r_index res' = 1000"
    by (rule peak_found [OF in_w(1) _ _ r(2) r(3)]) (simp_all add: one_peak_def)
  have vals: "r_amp res' = Fin 5" "r_freq res' = Fin (- 25 / 4)"
    using r(2) r(4) idx by (simp_all add: one_peak_def)
  then have bound: "d_le (d_fabs (r_pa res')) (Fin 90)"
    using r(6) by (simp add: is_number_def)
  have a: "fst (pitch_phase one_peak 2 res0 0) = PITCH_RET_OK \<and>
   snd (snd (pitch_phase one_peak 2 res0 0)) = 0 \<and>
   r_index (fst (snd (pitch_phase one_peak 2 res0 0))) = 1000 \<and>
   r_amp (fst (snd (pitch_phase one_peak 2 res0 0))) = Fin 5 \<and>
   r_freq (fst (snd (pitch_phase one_peak 2 res0 0))) = Fin (- 25 / 4) \<and>
   r_pa (fst (snd (pitch_phase one_peak 2 res0 0))) = pitch_angle 2 (Fin (- 25 / 4)) \<and>
   d_le (d_fabs (r_pa (fst (snd (pitch_phase one_peak 2 res0 0))))) (Fin 90)"
    using r(1) r(5) idx vals bound by simp
  have h2: "\<exists>i\<in>set [LO_INDEX..HI_INDEX]. i \<noteq> 1025 \<and> d_gt (f_abs (edge_peak i)) (Fin (- 255))"
    by (rule peak_candidate [OF in_s(2)]) (simp_all add: edge_peak_def)
  from pitch_phase_success [OF h2, of 2 res0 0]
  obtain res2 where q: "pitch_phase edge_peak 2 res0 0 = (PITCH_RET_OK, res2, 0)"
    "r_amp res2 = f_abs (edge_peak (r_index res2))"
    "\<forall>i\<in>window. i = 1025 \<or> \<not> d_gt (f_abs (edge_peak i)) (r_amp res2)"
    "r_freq res2 = f_freq (edge_peak (r_index res2))"
    "\<not> is_number (r_freq res2) \<longrightarrow> r_pa res2 = NaN"
    by blast
  have idx2: "r_index res2 = 824"
    by (rule peak_found [OF in_w(2) _ _ q(2) q(3)]) (simp_all add: edge_peak_def)
  then have f2: "r_freq res2 = NaN" using q(4) by (simp add: edge_peak_def)
  then have "r_pa res2 = NaN" using q(5) by (simp add: is_number_def)
  then have b: "fst (pitch_phase edge_peak 2 res0 0) = PITCH_RET_OK \<and>
   r_index (fst (snd (pitch_phase edge_peak 2 res0 0))) = 824 \<and>
   r_freq (fst (snd (pitch_phase edge_peak 2 res0 0))) = NaN \<and>
   r_pa (fst (snd (pitch_phase edge_peak 2 res0 0))) = NaN"
    using q(1) idx2 f2 by simp
  show ?thesis using a b by blast
qed

section \<open>The remap, slot by slot\<close>

lemma remap_write_eq:
  "remap_write out fft slot c = fft(slot := written out c (fft slot))"
  by (simp add: remap_write_def written_def Let_def)

lemma remap_step_eq:
  "remap_step out N (fft, c) x = (fft(x + N div 2 + 1 := written out c (fft (x + N div 2 + 1))), c + 1)"
  by (simp add: remap_step_def remap_write_eq)

lemma remap_fold_counter:
  "snd (foldl (remap_step out N) (fft, c) xs) = c + int (length xs)"
  by (induction xs arbitrary: fft c) (simp_all add: remap_step_eq)

lemma remap_fold_other:
  "s \<notin> (\<lambda>x. x + N div 2 + 1) ` set xs \<Longrightarrow>
   fst (foldl (remap_step out N) (fft, c) xs) s = fft s"
  by (induction xs arbitrary: fft c) (simp_all add: remap_step_eq)

lemma remap_fold_slot:
  "distinct xs \<Longrightarrow> k < length xs \<Longrightarrow>
   fst (foldl (remap_step out N) (fft, c) xs) (xs ! k + N div 2 + 1) =
     written out (c + int k) (fft (xs ! k + N div 2 + 1))"
proof (induction xs arbitrary: fft c k)
  case Nil
  then show ?case by simp
next
  case (Cons x xs)
  show ?case
  proof (cases k)
    case 0
    have "x + N div 2 + 1 \<notin> (\<lambda>x. x + N div 2 + 1) ` set xs"
      using Cons.prems(1) by auto
    then show ?thesis
      using 0 by (simp add: remap_step_eq remap_fold_other)
  next
    case (Suc j)
    then have j: "j < length xs" using Cons.prems(2) by simp
    have "xs ! j \<noteq> x" using Cons.prems(1) j by auto
    then show ?thesis
      using Suc j Cons.prems(1) Cons.IH [of j _ "c + 1"]
      by (simp add: remap_step_eq add.assoc)
  qed
qed

lemma remap_range_counter:
  "a \<le> b + 1 \<Longrightarrow> snd (foldl (remap_step out N) (fft, c) [a..b]) = c + (b - a + 1)"
  by (simp add: remap_fold_counter)

lemma remap_range_other:
  "h = N div 2 \<Longrightarrow> s - h - 1 < a \<or> b < s - h - 1 \<Longrightarrow>
   fst (foldl (remap_step out N) (fft, c) [a..b]) s = fft s"
  by (rule remap_fold_other) auto

lemma remap_range_slot:
  assumes "h = N div 2" "a \<le> x" "x \<le> b"
  shows "fst (foldl (remap_step out N) (fft, c) [a..b]) (x + h + 1) =
           written out (c + (x - a)) (fft (x + h + 1))"
proof -
  have k: "nat (x - a) < length [a..b]" using assms by simp
  have nth: "[a..b] ! nat (x - a) = x" using assms by (simp add: nth_upto)
  from remap_fold_slot [OF distinct_upto k, of out N fft c]
  show ?thesis using assms by (simp add: nth)
qed

text \<open>The slots of the result, with \<open>N = DIM_RAD\<close>, \<open>h = N div 2\<close> and \<open>c0 = mode * N\<close>.\<close>

lemma remap_slot_hi:
  assumes "int n div 2 + 1 \<le> s" "s \<le> 2 * (int n div 2)"
  shows "remap n out mode fft s = written out (mode * int n + (s - int n div 2 - 1)) (fft s)"
proof -
  define N where "N = int n"
  define h where "h = N div 2"
  have h: "0 \<le> h" "2 * h \<le> N" unfolding h_def N_def by simp_all
  have s: "h + 1 \<le> s" "s \<le> 2 * h" using assms unfolding h_def N_def by simp_all
  define s1 where "s1 = foldl (remap_step out N) (fft, mode * N) [0..h - 1]"
  have c1: "snd s1 = mode * N + h" unfolding s1_def using h by (simp add: remap_range_counter)
  have f1: "fst s1 s = written out (mode * N + (s - h - 1)) (fft s)"
    unfolding s1_def using remap_range_slot [OF h_def, of 0 "s - h - 1" "h - 1" out fft "mode * N"] s
    by simp
  define fft3 where "fft3 = (remap_write out (fst s1) (N + 1) (snd s1))
      (1 := (remap_write out (fst s1) (N + 1) (snd s1) 1)\<lparr>f_abs := magnitude (out (snd s1))\<rparr>)"
  have f3: "fft3 s = fst s1 s" unfolding fft3_def using s h by (simp add: remap_write_eq)
  have "remap n out mode fft s =
      fst (foldl (remap_step out N) (fft3, snd s1 + 1) [(- 1) * h + 1..- 1]) s"
    by (simp add: remap_def Let_def N_def h_def s1_def fft3_def)
  also have "\<dots> = fft3 s"
    by (rule remap_range_other [OF h_def]) (use s h in arith)
  finally show ?thesis using f3 f1 by (simp add: N_def h_def)
qed

lemma remap_slot_end:
  assumes "1 \<le> n"
  shows "remap n out mode fft (int n + 1) =
           written out (mode * int n + int n div 2) (fft (int n + 1))"
proof -
  define N where "N = int n"
  define h where "h = N div 2"
  have h: "0 \<le> h" "2 * h \<le> N" "1 \<le> N" unfolding h_def N_def using assms by simp_all
  define s1 where "s1 = foldl (remap_step out N) (fft, mode * N) [0..h - 1]"
  have c1: "snd s1 = mode * N + h" unfolding s1_def using h by (simp add: remap_range_counter)
  have f1: "fst s1 (N + 1) = fft (N + 1)"
    unfolding s1_def by (rule remap_range_other [OF h_def]) (use h in arith)
  define fft3 where "fft3 = (remap_write out (fst s1) (N + 1) (snd s1))
      (1 := (remap_write out (fst s1) (N + 1) (snd s1) 1)\<lparr>f_abs := magnitude (out (snd s1))\<rparr>)"
  have f3: "fft3 (N + 1) = written out (mode * N + h) (fft (N + 1))"
    unfolding fft3_def using h c1 f1 by (simp add: remap_write_eq)
  have "remap n out mode fft (N + 1) =
      fst (foldl (remap_step out N) (fft3, snd s1 + 1) [(- 1) * h + 1..- 1]) (N + 1)"
    by (simp add: remap_def Let_def N_def h_def s1_def fft3_def)
  also have "\<dots> = fft3 (N + 1)"
    by (rule remap_range_other [OF h_def]) (use h in arith)
  finally show ?thesis using f3 by (simp add: N_def h_def)
qed

lemma remap_slot_1:
  assumes "1 \<le> n"
  shows "remap n out mode fft 1 = (fft 1)\<lparr>f_abs := magnitude (out (mode * int n + int n div 2))\<rparr>"
proof -
  define N where "N = int n"
  define h where "h = N div 2"
  have h: "0 \<le> h" "2 * h \<le> N" "1 \<le> N" unfolding h_def N_def using assms by simp_all
  define s1 where "s1 = foldl (remap_step out N) (fft, mode * N) [0..h - 1]"
  have c1: "snd s1 = mode * N + h" unfolding s1_def using h by (simp add: remap_range_counter)
  have f1: "fst s1 1 = fft 1"
    unfolding s1_def by (rule remap_range_other [OF h_def]) (use h in arith)
  define fft3 where "fft3 = (remap_write out (fst s1) (N + 1) (snd s1))
      (1 := (remap_write out (fst s1) (N + 1) (snd s1) 1)\<lparr>f_abs := magnitude (out (snd s1))\<rparr>)"
  have f3: "fft3 1 = (fft 1)\<lparr>f_abs := magnitude (out (mode * N + h))\<rparr>"
    unfolding fft3_def using h c1 f1 by (simp add: remap_write_eq)
  have "remap n out mode fft 1 =
      fst (foldl (remap_step out N) (fft3, snd s1 + 1) [(- 1) * h + 1..- 1]) 1"
    by (simp add: remap_def Let_def N_def h_def s1_def fft3_def)
  also have "\<dots> = fft3 1"
    by (rule remap_range_other [OF h_def]) (use h in arith)
  finally show ?thesis using f3 by (simp add: N_def h_def)
qed

lemma remap_slot_lo:
  assumes "2 \<le> s" "s \<le> int n div 2"
  shows "remap n out mode fft s = written out (mode * int n + int n div 2 + (s - 1)) (fft s)"
proof -
  define N where "N = int n"
  define h where "h = N div 2"
  have h: "0 \<le> h" "2 * h \<le> N" unfolding h_def N_def by simp_all
  have s: "2 \<le> s" "s \<le> h" using assms unfolding h_def N_def by simp_all
  define s1 where "s1 = foldl (remap_step out N) (fft, mode * N) [0..h - 1]"
  have c1: "snd s1 = mode * N + h" unfolding s1_def using h by (simp add: remap_range_counter)
  have f1: "fst s1 s = fft s"
    unfolding s1_def by (rule remap_range_other [OF h_def]) (use s h in arith)
  define fft3 where "fft3 = (remap_write out (fst s1) (N + 1) (snd s1))
      (1 := (remap_write out (fst s1) (N + 1) (snd s1) 1)\<lparr>f_abs := magnitude (out (snd s1))\<rparr>)"
  have f3: "fft3 s = fft s" unfolding fft3_def using s h f1 by (simp add: remap_write_eq)
  have "remap n out mode fft s =
      fst (foldl (remap_step out N) (fft3, snd s1 + 1) [(- 1) * h + 1..- 1]) s"
    by (simp add: remap_def Let_def N_def h_def s1_def fft3_def)
  also have "\<dots> = written out (snd s1 + 1 + (s - h - 1 - ((- 1) * h + 1))) (fft3 s)"
    using remap_range_slot [OF h_def, of "(- 1) * h + 1" "s - h - 1" "- 1" out fft3 "snd s1 + 1"] s
    by simp
  finally show ?thesis using f3 c1 by (simp add: N_def h_def algebra_simps)
qed

lemma remap_slot_outside:
  assumes "s < 1 \<or> int n + 1 < s"
  shows "remap n out mode fft s = fft s"
proof -
  define N where "N = int n"
  define h where "h = N div 2"
  have h: "0 \<le> h" "2 * h \<le> N" unfolding h_def N_def by simp_all
  have s: "s < 1 \<or> N + 1 < s" using assms unfolding N_def by simp
  define s1 where "s1 = foldl (remap_step out N) (fft, mode * N) [0..h - 1]"
  have f1: "fst s1 s = fft s"
    unfolding s1_def by (rule remap_range_other [OF h_def]) (use s h in arith)
  define fft3 where "fft3 = (remap_write out (fst s1) (N + 1) (snd s1))
      (1 := (remap_write out (fst s1) (N + 1) (snd s1) 1)\<lparr>f_abs := magnitude (out (snd s1))\<rparr>)"
  have f3: "fft3 s = fft s" unfolding fft3_def using s h f1 by (auto simp: remap_write_eq)
  have "remap n out mode fft s =
      fst (foldl (remap_step out N) (fft3, snd s1 + 1) [(- 1) * h + 1..- 1]) s"
    by (simp add: remap_def Let_def N_def h_def s1_def fft3_def)
  also have "\<dots> = fft3 s"
    by (rule remap_range_other [OF h_def]) (use s h in arith)
  finally show ?thesis using f3 by simp
qed

section \<open>The layout written by the remap\<close>




section \<open>What the remap leaves in slot 1\<close>

text \<open>
  C9.  With \<open>DIM_RAD\<close> at least 1, the remap of a mode changes the real and imaginary
  fields of no slot outside 2 to \<open>DIM_RAD + 1\<close>.  In slot 1 it writes the magnitude of
  the wrap-point bin \<open>DIM_RAD/2\<close> of the mode's slice and nothing else, so the real and
  imaginary fields of slot 1 are those the buffer held before the remap.
\<close>

theorem remap_slot_1_real_imag_kept:
  assumes "1 \<le> n"
  shows "f_real (remap n out mode fft 1) = f_real (fft 1) \<and>
         f_imag (remap n out mode fft 1) = f_imag (fft 1) \<and>
         f_abs (remap n out mode fft 1) = magnitude (out (mode * int n + int n div 2)) \<and>
         (\<forall>s. s < 2 \<or> int n + 1 < s \<longrightarrow>
              f_real (remap n out mode fft s) = f_real (fft s) \<and>
              f_imag (remap n out mode fft s) = f_imag (fft s))"
proof -
  have one: "remap n out mode fft 1 = (fft 1)\<lparr>f_abs := magnitude (out (mode * int n + int n div 2))\<rparr>"
    by (rule remap_slot_1 [OF assms])
  have other: "f_real (remap n out mode fft s) = f_real (fft s) \<and>
               f_imag (remap n out mode fft s) = f_imag (fft s)"
    if "s < 2 \<or> int n + 1 < s" for s
  proof (cases "s = 1")
    case True
    then show ?thesis using one by simp
  next
    case False
    then have "s < 1 \<or> int n + 1 < s" using that by arith
    then show ?thesis by (simp add: remap_slot_outside)
  qed
  show ?thesis using one other by simp
qed

theorem remap_slot_1_real_imag_kept_witness:
  "(1::nat) \<le> 4 \<and>
   f_real (remap 4 ramp_out 1 (dc_only (Fin 7)) 1) = NaN \<and>
   f_imag (remap 4 ramp_out 1 (dc_only (Fin 7)) 1) = NaN \<and>
   f_abs (remap 4 ramp_out 1 (dc_only (Fin 7)) 1) = Fin (sqrt 37)"
proof -
  have h: "(1::nat) \<le> 4" by simp
  have "magnitude (ramp_out 6) = Fin (sqrt 37)"
    by (simp add: magnitude_def ramp_out_def)
  then show ?thesis
    using remap_slot_1_real_imag_kept [OF h, of ramp_out 1 "dc_only (Fin 7)"]
    by (simp add: dc_only_def)
qed

section \<open>The bounds of the fixed-width annulus\<close>

text \<open>
  C2.  The claim: with the fixed-width option active, the cutoff compares the sample's
  logarithmic radius with bounds \<open>log_lo\<close> and \<open>log_hi\<close> that were assigned before the
  sample loop.  In the code the two locals are declared at the top of the radius loop's
  body and assigned nowhere; the pass assigns \<open>log_rad\<close> only.  With \<open>fixed = 10\<close>, for
  every radius, direction and sample, both bounds hold no value when the cutoff reads them
  and the outcome of the comparison is not determined.
\<close>

theorem fixed_cutoff_reads_unassigned_bounds:
  "log_lo (radius_locals reverse items_radius radius) = None \<and>
   log_hi (radius_locals reverse items_radius radius) = None \<and>
   fixed_cutoff 10 lnr (radius_locals reverse items_radius radius) = None"
  by (simp add: radius_locals_def declared_def fixed_cutoff_def)


section \<open>The frequency loop, slot by slot\<close>

lemma freq_step_eq:
  "freq_step g hp mode (fft, fft_sum, p) jm =
     (if in_bounds g jm
      then (fft(jm := labelled g hp mode jm (fft jm)),
            (if is_number (f_abs (fft jm))
             then fft_sum(mode := (fft_sum mode)(p := d_add (fft_sum mode p) (f_abs (fft jm))))
             else fft_sum),
            p + 1)
      else (fft, fft_sum, p))"
  by (simp add: freq_step_def in_bounds_def labelled_def is_number_def Let_def)

lemma freq_fold_fft:
  "distinct xs \<Longrightarrow>
   fst (foldl (freq_step g hp mode) (fft, fft_sum, p) xs) s =
     (if s \<in> set xs \<and> in_bounds g s then labelled g hp mode s (fft s) else fft s)"
proof (induction xs arbitrary: fft fft_sum p)
  case Nil
  show ?case by simp
next
  case (Cons x xs)
  then show ?case by (simp add: freq_step_eq)
qed

lemma freq_loop_fft:
  "fst (freq_loop g hp mode fft fft_sum) s =
     (if 1 \<le> s \<and> s \<le> int (DIM_RAD g) + 1 \<and> in_bounds g s
      then labelled g hp mode s (fft s) else fft s)"
  unfolding freq_loop_def by (simp add: freq_fold_fft)

lemma in_band_abs: "in_band mode fs \<longleftrightarrow> \<bar>fs\<bar> < 0.25 * real_of_int mode"
  by (auto simp: in_band_def abs_less_iff)

text \<open>
  The documented constants: the slots inside the frequency bounds are 825 to 1225, as many
  as the summed spectrum has entries for a mode, and the band of the high-pass filter of
  each mode from 0 to 6 lies inside them.
\<close>

lemma documented_freq: "freq_save_of documented jm = real_of_int (jm - 1025) / 4"
  by (simp add: freq_save_of_def documented_def field_simps)

lemma documented_in_bounds: "in_bounds documented jm \<longleftrightarrow> 825 \<le> jm \<and> jm \<le> 1225"
proof -
  have fs: "FREQ_START documented = - 50" "FREQ_END documented = 50"
    by (simp_all add: documented_def)
  have "in_bounds documented jm \<longleftrightarrow>
      - 200 \<le> real_of_int (jm - 1025) \<and> real_of_int (jm - 1025) \<le> 200"
    by (simp add: in_bounds_def documented_freq fs)
  also have "\<dots> \<longleftrightarrow> - 200 \<le> jm - 1025 \<and> jm - 1025 \<le> 200"
    by linarith
  finally show ?thesis by auto
qed

lemma documented_lim: "lim documented = 401"
  by (simp add: lim_def documented_def)

lemma documented_band:
  assumes "0 \<le> m" "m \<le> 6" "\<bar>freq_save_of documented jm\<bar> < 0.25 * real_of_int m"
  shows "1 \<le> jm \<and> jm \<le> int (DIM_RAD documented) + 1 \<and> in_bounds documented jm"
proof -
  have "\<bar>real_of_int (jm - 1025)\<bar> < real_of_int m"
    using assms(3) by (simp add: documented_freq)
  then have "\<bar>jm - 1025\<bar> < m" by linarith
  then have "1019 < jm \<and> jm < 1031" using assms(2) by linarith
  then show ?thesis by (simp add: documented_in_bounds) (simp add: documented_def)
qed

section \<open>The high-pass suppression\<close>

text \<open>
  C8.  The suppression statement never changes the frequency field of the record it is
  applied to.  After the frequency loop of a mode, a slot from 1 to \<open>DIM_RAD + 1\<close> whose
  frequency is inside the configured bounds holds its frequency label and, when high-pass
  mode is on and the frequency lies strictly within 0.25 times the mode of zero, zeros for
  magnitude, real part and imaginary part; when high-pass mode is off or the frequency is
  outside that band, its magnitude, real part and imaginary part are those it held after
  the remap.  Every other slot is as it was.  With the documented constants the band of
  each mode from 0 to 6 consists of slots from 1 to \<open>DIM_RAD + 1\<close> inside the bounds.
\<close>

theorem high_pass_suppression:
  "(\<forall>fs b. f_freq (high_pass_step hp mode fs b) = f_freq b) \<and>
   (\<forall>jm. 1 \<le> jm \<and> jm \<le> int (DIM_RAD g) + 1 \<and> in_bounds g jm \<longrightarrow>
      (hp \<noteq> 0 \<and> \<bar>freq_save_of g jm\<bar> < 0.25 * real_of_int mode \<longrightarrow>
         fst (freq_loop g hp mode fft fft_sum) jm =
           \<lparr>f_real = Fin 0, f_imag = Fin 0, f_abs = Fin 0, f_freq = Fin (freq_save_of g jm)\<rparr>) \<and>
      (\<not> (hp \<noteq> 0 \<and> \<bar>freq_save_of g jm\<bar> < 0.25 * real_of_int mode) \<longrightarrow>
         fst (freq_loop g hp mode fft fft_sum) jm = (fft jm)\<lparr>f_freq := Fin (freq_save_of g jm)\<rparr>)) \<and>
   (\<forall>jm. \<not> (1 \<le> jm \<and> jm \<le> int (DIM_RAD g) + 1 \<and> in_bounds g jm) \<longrightarrow>
      fst (freq_loop g hp mode fft fft_sum) jm = fft jm) \<and>
   (\<forall>jm m. 0 \<le> m \<and> m \<le> 6 \<and> \<bar>freq_save_of documented jm\<bar> < 0.25 * real_of_int m \<longrightarrow>
      1 \<le> jm \<and> jm \<le> int (DIM_RAD documented) + 1 \<and> in_bounds documented jm)"
proof -
  have a: "f_freq (high_pass_step hp mode fs b) = f_freq b" for fs b
    by (simp add: high_pass_step_def)
  have b: "fst (freq_loop g hp mode fft fft_sum) jm =
        \<lparr>f_real = Fin 0, f_imag = Fin 0, f_abs = Fin 0, f_freq = Fin (freq_save_of g jm)\<rparr>"
    if "1 \<le> jm \<and> jm \<le> int (DIM_RAD g) + 1 \<and> in_bounds g jm"
      and "hp \<noteq> 0 \<and> \<bar>freq_save_of g jm\<bar> < 0.25 * real_of_int mode" for jm
    using that by (simp add: freq_loop_fft labelled_def high_pass_step_def in_band_abs)
  have c: "fst (freq_loop g hp mode fft fft_sum) jm = (fft jm)\<lparr>f_freq := Fin (freq_save_of g jm)\<rparr>"
    if "1 \<le> jm \<and> jm \<le> int (DIM_RAD g) + 1 \<and> in_bounds g jm"
      and "\<not> (hp \<noteq> 0 \<and> \<bar>freq_save_of g jm\<bar> < 0.25 * real_of_int mode)" for jm
    using that by (auto simp: freq_loop_fft labelled_def high_pass_step_def in_band_abs)
  have d: "fst (freq_loop g hp mode fft fft_sum) jm = fft jm"
    if "\<not> (1 \<le> jm \<and> jm \<le> int (DIM_RAD g) + 1 \<and> in_bounds g jm)" for jm
    using that by (auto simp: freq_loop_fft)
  have e: "1 \<le> jm \<and> jm \<le> int (DIM_RAD documented) + 1 \<and> in_bounds documented jm"
    if "0 \<le> m \<and> m \<le> 6 \<and> \<bar>freq_save_of documented jm\<bar> < 0.25 * real_of_int m" for jm m
    using that documented_band [of m jm] by blast
  show ?thesis using a b c d e by blast
qed

theorem high_pass_suppression_witness:
  "(1::int) \<le> 1025 \<and> 1025 \<le> int (DIM_RAD documented) + 1 \<and> in_bounds documented 1025 \<and>
   \<bar>freq_save_of documented 1025\<bar> < 0.25 * real_of_int 1 \<and>
   fst (freq_loop documented 1 1 one_peak nan_sum) 1025 =
     \<lparr>f_real = Fin 0, f_imag = Fin 0, f_abs = Fin 0, f_freq = Fin 0\<rparr> \<and>
   fst (freq_loop documented 0 1 one_peak nan_sum) 1025 = (one_peak 1025)\<lparr>f_freq := Fin 0\<rparr> \<and>
   \<not> \<bar>freq_save_of documented 1026\<bar> < 0.25 * real_of_int 1 \<and>
   fst (freq_loop documented 1 1 one_peak nan_sum) 1026 = (one_peak 1026)\<lparr>f_freq := Fin (1 / 4)\<rparr> \<and>
   \<not> in_bounds documented 1226 \<and>
   fst (freq_loop documented 1 1 one_peak nan_sum) 1226 = one_peak 1226"
proof -
  have f0: "freq_save_of documented 1025 = 0" "freq_save_of documented 1026 = 1 / 4"
    by (simp_all add: freq_save_of_def documented_def)
  have ib: "in_bounds documented 1025" "in_bounds documented 1026" "\<not> in_bounds documented 1226"
    by (simp_all add: in_bounds_def freq_save_of_def documented_def)
  have dr: "int (DIM_RAD documented) + 1 = 2049" by (simp add: documented_def)
  note on = high_pass_suppression [of 1 1 documented one_peak nan_sum]
  note off = high_pass_suppression [of 0 1 documented one_peak nan_sum]
  have a: "fst (freq_loop documented 1 1 one_peak nan_sum) 1025 =
      \<lparr>f_real = Fin 0, f_imag = Fin 0, f_abs = Fin 0, f_freq = Fin 0\<rparr>"
    using on [THEN conjunct2, THEN conjunct1, THEN spec, of 1025] f0 ib dr by simp
  have b: "fst (freq_loop documented 0 1 one_peak nan_sum) 1025 = (one_peak 1025)\<lparr>f_freq := Fin 0\<rparr>"
    using off [THEN conjunct2, THEN conjunct1, THEN spec, of 1025] f0 ib dr by simp
  have c: "fst (freq_loop documented 1 1 one_peak nan_sum) 1026 = (one_peak 1026)\<lparr>f_freq := Fin (1 / 4)\<rparr>"
    using on [THEN conjunct2, THEN conjunct1, THEN spec, of 1026] f0 ib dr by simp
  have d: "fst (freq_loop documented 1 1 one_peak nan_sum) 1226 = one_peak 1226"
    using on [THEN conjunct2, THEN conjunct2, THEN conjunct1, THEN spec, of 1226] ib by simp
  have e: "(1::int) \<le> 1025 \<and> 1025 \<le> int (DIM_RAD documented) + 1 \<and> in_bounds documented 1025"
    using on [THEN conjunct2, THEN conjunct2, THEN conjunct2, THEN spec, THEN spec, of 1 1025] f0
    by simp
  show ?thesis using a b c d e f0 ib dr by simp
qed

section \<open>The summed spectrum\<close>

lemma d_add_sum_value: "sum_value a \<Longrightarrow> sum_value b \<Longrightarrow> sum_value (d_add a b)"
  by (cases a; cases b) (simp_all add: sum_value_def)

lemma sum_value_is_number: "sum_value a \<Longrightarrow> is_number a"
  by (cases a) (simp_all add: sum_value_def is_number_def)

lemma number_sum_value: "is_number a \<Longrightarrow> a \<noteq> NInf \<Longrightarrow> sum_value a"
  by (cases a) (simp_all add: sum_value_def is_number_def)

lemma d_sqrt_not_NInf: "d_sqrt a \<noteq> NInf"
  by (cases a) simp_all

lemma magnitude_not_NInf: "magnitude c \<noteq> NInf"
  by (simp add: magnitude_def d_sqrt_not_NInf)

lemma written_abs: "f_abs (written out c old) = magnitude (out c)"
  by (simp add: written_def)

lemma remap_zero_dim_slot_1: "f_abs (remap 0 out mode fft 1) = magnitude (out 0)"
  by (simp add: remap_def Let_def remap_write_eq written_def)

lemma remap_abs_not_NInf:
  assumes "even n" "1 \<le> s" "s \<le> int n + 1"
  shows "f_abs (remap n out mode fft s) \<noteq> NInf"
proof (cases "n = 0")
  case True
  then have "s = 1" using assms(2,3) by simp
  then show ?thesis using True by (simp add: remap_zero_dim_slot_1 magnitude_not_NInf)
next
  case False
  then have n: "1 \<le> n" by simp
  have ev: "2 * (int n div 2) = int n" using assms(1) by simp
  consider "s = 1" | "2 \<le> s \<and> s \<le> int n div 2"
    | "int n div 2 + 1 \<le> s \<and> s \<le> 2 * (int n div 2)" | "s = int n + 1"
    using assms(2,3) ev by arith
  then show ?thesis
  proof cases
    case 1
    then show ?thesis by (simp add: remap_slot_1 [OF n] magnitude_not_NInf)
  next
    case 2
    then show ?thesis by (simp add: remap_slot_lo written_abs magnitude_not_NInf)
  next
    case 3
    then show ?thesis by (simp add: remap_slot_hi written_abs magnitude_not_NInf)
  next
    case 4
    then show ?thesis by (simp add: remap_slot_end [OF n] written_abs magnitude_not_NInf)
  qed
qed

lemma labelled_abs_not_NInf:
  "f_abs b \<noteq> NInf \<Longrightarrow> f_abs (labelled g hp mode jm b) \<noteq> NInf"
  by (simp add: labelled_def high_pass_step_def)

lemma freq_fold_sum:
  assumes "\<forall>s\<in>set xs. f_abs (fft s) \<noteq> NInf"
    and "\<forall>m i. E m i \<longrightarrow> sum_value (fft_sum m i)"
  shows "\<forall>m i. E m i \<longrightarrow>
           sum_value (fst (snd (foldl (freq_step g hp mode) (fft, fft_sum, p) xs)) m i)"
  using assms
proof (induction xs arbitrary: fft fft_sum p)
  case Nil
  then show ?case by simp
next
  case (Cons x xs)
  show ?case
  proof (cases "in_bounds g x")
    case False
    then show ?thesis using Cons.IH [of fft fft_sum p] Cons.prems by (simp add: freq_step_eq)
  next
    case True
    define fft' where "fft' = fft(x := labelled g hp mode x (fft x))"
    define sum' where "sum' =
      (if is_number (f_abs (fft x))
       then fft_sum(mode := (fft_sum mode)(p := d_add (fft_sum mode p) (f_abs (fft x))))
       else fft_sum)"
    have step: "freq_step g hp mode (fft, fft_sum, p) x = (fft', sum', p + 1)"
      using True by (simp add: freq_step_eq fft'_def sum'_def)
    have x: "f_abs (fft x) \<noteq> NInf" using Cons.prems(1) by simp
    have 1: "\<forall>s\<in>set xs. f_abs (fft' s) \<noteq> NInf"
      using Cons.prems(1) x by (simp add: fft'_def labelled_abs_not_NInf)
    have 2: "\<forall>m i. E m i \<longrightarrow> sum_value (sum' m i)"
    proof (intro allI impI)
      fix m i
      assume e: "E m i"
      then have old: "sum_value (fft_sum m i)" using Cons.prems(2) by simp
      show "sum_value (sum' m i)"
      proof (cases "is_number (f_abs (fft x)) \<and> m = mode \<and> i = p")
        case True
        then have "sum' m i = d_add (fft_sum m i) (f_abs (fft x))" by (simp add: sum'_def)
        then show ?thesis
          using old True x by (simp add: d_add_sum_value number_sum_value)
      next
        case False
        then have "sum' m i = fft_sum m i" by (auto simp: sum'_def)
        then show ?thesis using old by simp
      qed
    qed
    show ?thesis using Cons.IH [OF 1 2, of "p + 1"] by (simp add: step)
  qed
qed

lemma mode_pass_sum:
  assumes "even (DIM_RAD g)" and "\<forall>m i. E m i \<longrightarrow> sum_value (fft_sum m i)"
  shows "\<forall>m i. E m i \<longrightarrow> sum_value (snd (mode_pass g hp (fft, fft_sum) (out, mode)) m i)"
proof -
  have "\<forall>s\<in>set [1..int (DIM_RAD g) + 1]. f_abs (remap (DIM_RAD g) out mode fft s) \<noteq> NInf"
    using remap_abs_not_NInf [OF assms(1)] by simp
  from freq_fold_sum [OF this assms(2), of g hp mode 0]
  show ?thesis by (simp add: mode_pass_def freq_loop_def Let_def)
qed

lemma reset_inner:
  "foldl (\<lambda>s j. s(j := (s j)(i := Fin 0))) s js m k =
     (if m \<in> set js \<and> k = i then Fin 0 else s m k)"
  by (induction js arbitrary: s) simp_all

lemma reset_outer:
  "foldl (\<lambda>s i. foldl (\<lambda>s j. s(j := (s j)(i := Fin 0))) s js) s is m k =
     (if m \<in> set js \<and> k \<in> set is then Fin 0 else s m k)"
  by (induction "is" arbitrary: s) (auto simp: reset_inner)

lemma reset_sum_entry:
  "reset_sum g fft_sum m i =
     (if M_INI g \<le> m \<and> m \<le> M_FIN g \<and> 0 \<le> i \<and> i < lim g then Fin 0 else fft_sum m i)"
  unfolding reset_sum_def by (simp add: reset_outer) 

lemma contributions_sum:
  assumes "even (DIM_RAD g)" and "\<forall>m i. E m i \<longrightarrow> sum_value (fft_sum m i)"
  shows "\<forall>m i. E m i \<longrightarrow> sum_value (snd (foldl (mode_pass g hp) (fft, fft_sum) cs) m i)"
  using assms(2)
proof (induction cs arbitrary: fft fft_sum)
  case Nil
  then show ?case by simp
next
  case (Cons c cs)
  obtain out mode where c: "c = (out, mode)" by (cases c) auto
  obtain fft' sum' where s: "mode_pass g hp (fft, fft_sum) (out, mode) = (fft', sum')"
    by (cases "mode_pass g hp (fft, fft_sum) (out, mode)") auto
  have "\<forall>m i. E m i \<longrightarrow> sum_value (sum' m i)"
    using mode_pass_sum [OF assms(1) Cons.prems, of hp fft out mode] s by simp
  from Cons.IH [OF this, of fft'] show ?case by (simp add: c s)
qed

section \<open>The summed spectrum never holds NaN\<close>

text \<open>
  C10.  One pass of the frequency loop's body on a slot inside the frequency bounds adds
  the slot's magnitude to the entry of the summed spectrum at the mode and the running
  index when the magnitude equals itself, and leaves the summed spectrum alone when it
  does not; a slot outside the bounds leaves it alone as well.  With \<open>DIM_RAD\<close> even, after
  the reset at the start of a file and any sequence of contributions, each the remap and
  frequency loop of some mode on some native output, every entry the reset covers (modes
  \<open>M_INI\<close> to \<open>M_FIN\<close>, indices below \<open>lim\<close>) is a number.
\<close>

theorem summed_spectrum_never_nan:
  assumes "even (DIM_RAD g)"
  shows "(\<forall>fft s p jm mode.
            fst (snd (freq_step g hp mode (fft, s, p) jm)) =
              (if in_bounds g jm \<and> d_eq (f_abs (fft jm)) (f_abs (fft jm))
               then s(mode := (s mode)(p := d_add (s mode p) (f_abs (fft jm))))
               else s)) \<and>
         (\<forall>m\<in>{M_INI g..M_FIN g}. \<forall>i\<in>{0..<lim g}.
            reset_sum g fft_sum m i = Fin 0 \<and>
            is_number (snd (contributions g hp fft fft_sum cs) m i))"
proof -
  define E where "E = (\<lambda>m i. M_INI g \<le> m \<and> m \<le> M_FIN g \<and> 0 \<le> i \<and> i < lim g)"
  have step: "fst (snd (freq_step g hp mode (fft, s, p) jm)) =
      (if in_bounds g jm \<and> d_eq (f_abs (fft jm)) (f_abs (fft jm))
       then s(mode := (s mode)(p := d_add (s mode p) (f_abs (fft jm))))
       else s)" for fft s p jm mode
    by (simp add: freq_step_eq is_number_def)
  have start: "\<forall>m i. E m i \<longrightarrow> sum_value (reset_sum g fft_sum m i)"
    by (simp add: E_def reset_sum_entry sum_value_def)
  have "\<forall>m i. E m i \<longrightarrow> sum_value (snd (contributions g hp fft fft_sum cs) m i)"
    unfolding contributions_def by (rule contributions_sum [OF assms start])
  then have fin: "is_number (snd (contributions g hp fft fft_sum cs) m i)"
    if "E m i" for m i
    using that sum_value_is_number by blast
  have zero: "reset_sum g fft_sum m i = Fin 0" if "E m i" for m i
    using that by (simp add: E_def reset_sum_entry)
  show ?thesis using step fin zero by (simp add: E_def)
qed

theorem summed_spectrum_never_nan_witness:
  "even (DIM_RAD documented) \<and>
   (2::int) \<in> {M_INI documented..M_FIN documented} \<and> (7::int) \<in> {0..<lim documented} \<and>
   reset_sum documented nan_sum 2 7 = Fin 0 \<and>
   is_number (snd (contributions documented 1 (dc_only NaN) nan_sum
                     [(ramp_out, 2), (nan_out, 2), (ramp_out, 3)]) 2 7)"
proof -
  have h: "even (DIM_RAD documented)" by (simp add: documented_def)
  have m: "(2::int) \<in> {M_INI documented..M_FIN documented}" by (simp add: documented_def)
  have i: "(7::int) \<in> {0..<lim documented}" by (simp add: documented_def lim_def)
  show ?thesis
    using h m i summed_spectrum_never_nan [OF h, of 1 nan_sum "dc_only NaN"
        "[(ramp_out, 2), (nan_out, 2), (ramp_out, 3)]"]
    by blast
qed


section \<open>The two scans of \<open>fwhm\<close>\<close>

lemma scan_hi_found:
  assumes "i \<le> ih" "ih \<le> HI_INDEX" "below fft limit ih"
    and "\<forall>k. i \<le> k \<and> k < ih \<longrightarrow> \<not> below fft limit k"
  shows "scan_hi fft limit i = ih - 1"
  using assms
proof (induction fft limit i rule: scan_hi.induct)
  case (1 fft limit i)
  show ?case
  proof (cases "i = ih")
    case True
    then show ?thesis
      using "1.prems" by (subst scan_hi.simps) (simp add: below_def)
  next
    case False
    then have lt: "i < ih" using "1.prems"(1) by simp
    then have nb: "\<not> (i \<noteq> 1025 \<and> d_lt (f_abs (fft i)) limit)"
      using "1.prems"(4) by (simp add: below_def)
    have le: "i \<le> HI_INDEX" using lt "1.prems"(2) by simp
    have "scan_hi fft limit (i + 1) = ih - 1"
      using "1.IH" [OF le nb] lt "1.prems" by simp
    then show ?thesis
      using le nb by (subst scan_hi.simps) auto
  qed
qed

lemma scan_hi_none:
  assumes "\<forall>k. i \<le> k \<and> k \<le> HI_INDEX \<longrightarrow> \<not> below fft limit k"
  shows "scan_hi fft limit i = 0"
  using assms
proof (induction fft limit i rule: scan_hi.induct)
  case (1 fft limit i)
  show ?case
  proof (cases "i \<le> HI_INDEX")
    case True
    then have nb: "\<not> (i \<noteq> 1025 \<and> d_lt (f_abs (fft i)) limit)"
      using "1.prems" by (simp add: below_def)
    have "scan_hi fft limit (i + 1) = 0"
      using "1.IH" [OF True nb] "1.prems" by simp
    then show ?thesis using True nb by (subst scan_hi.simps) auto
  next
    case False
    then show ?thesis by (subst scan_hi.simps) simp
  qed
qed

lemma scan_lo_found:
  assumes "il \<le> i" "LO_INDEX \<le> il" "below fft limit il"
    and "\<forall>k. il < k \<and> k \<le> i \<longrightarrow> \<not> below fft limit k"
  shows "scan_lo fft limit i = il + 1"
  using assms
proof (induction fft limit i rule: scan_lo.induct)
  case (1 fft limit i)
  show ?case
  proof (cases "i = il")
    case True
    then show ?thesis
      using "1.prems" by (subst scan_lo.simps) (simp add: below_def)
  next
    case False
    then have lt: "il < i" using "1.prems"(1) by simp
    then have nb: "\<not> (i \<noteq> 1025 \<and> d_lt (f_abs (fft i)) limit)"
      using "1.prems"(4) by (simp add: below_def)
    have le: "LO_INDEX \<le> i" using lt "1.prems"(2) by simp
    have "scan_lo fft limit (i - 1) = il + 1"
      using "1.IH" [OF le nb] lt "1.prems" by simp
    then show ?thesis
      using le nb by (subst scan_lo.simps) auto
  qed
qed

lemma scan_lo_none:
  assumes "\<forall>k. LO_INDEX \<le> k \<and> k \<le> i \<longrightarrow> \<not> below fft limit k"
  shows "scan_lo fft limit i = 0"
  using assms
proof (induction fft limit i rule: scan_lo.induct)
  case (1 fft limit i)
  show ?case
  proof (cases "LO_INDEX \<le> i")
    case True
    then have nb: "\<not> (i \<noteq> 1025 \<and> d_lt (f_abs (fft i)) limit)"
      using "1.prems" by (simp add: below_def)
    have "scan_lo fft limit (i - 1) = 0"
      using "1.IH" [OF True nb] "1.prems" by simp
    then show ?thesis using True nb by (subst scan_lo.simps) auto
  next
    case False
    then show ?thesis by (subst scan_lo.simps) simp
  qed
qed

section \<open>The width stored by \<open>fwhm\<close>\<close>

text \<open>
  C6.  The limit is the amplitude less half the difference of amplitude and average
  amplitude, and a bin stops a scan when it is not slot 1025 and its magnitude is less
  than the limit.  When the index of the record is outside the window, \<open>fwhm\<close> returns
  \<open>PITCH_RET_ERR\<close>.  When it is inside, and \<open>ih\<close> is the first bin above the index, up to
  \<open>HI_INDEX\<close>, that stops the upward scan, and \<open>il\<close> the first bin below the index, down
  to \<open>LO_INDEX\<close>, that stops the downward scan, \<open>fwhm\<close> returns \<open>PITCH_RET_OK\<close> and stores
  the number of bins from \<open>il + 1\<close> to \<open>ih - 1\<close>, both counted.  When no bin stops the
  upward scan or no bin stops the downward scan, it returns \<open>PITCH_RET_ERR\<close>.  On an
  error the record is unchanged.
\<close>

theorem fwhm_width:
  "fwhm_limit res = d_sub (r_amp res) (d_div (d_sub (r_amp res) (r_avg_amp res)) (Fin 2)) \<and>
   (r_index res < LO_INDEX \<or> HI_INDEX < r_index res \<longrightarrow>
      fwhm fft res e = (PITCH_RET_ERR, res, PITCH_ERR_INVALID)) \<and>
   (LO_INDEX \<le> r_index res \<and> r_index res \<le> HI_INDEX \<longrightarrow>
      (\<forall>ih il.
         r_index res < ih \<and> ih \<le> HI_INDEX \<and> below fft (fwhm_limit res) ih \<and>
         (\<forall>k. r_index res < k \<and> k < ih \<longrightarrow> \<not> below fft (fwhm_limit res) k) \<and>
         LO_INDEX \<le> il \<and> il < r_index res \<and> below fft (fwhm_limit res) il \<and>
         (\<forall>k. il < k \<and> k < r_index res \<longrightarrow> \<not> below fft (fwhm_limit res) k) \<longrightarrow>
         fwhm fft res e =
           (PITCH_RET_OK, res\<lparr>r_fwhm := Fin (of_int ((ih - 1) - (il + 1) + 1))\<rparr>, e)) \<and>
      ((\<forall>k. r_index res < k \<and> k \<le> HI_INDEX \<longrightarrow> \<not> below fft (fwhm_limit res) k) \<or>
       (\<forall>k. LO_INDEX \<le> k \<and> k < r_index res \<longrightarrow> \<not> below fft (fwhm_limit res) k) \<longrightarrow>
         fwhm fft res e = (PITCH_RET_ERR, res, PITCH_ERR_SCANFWHM)))"
proof -
  have lim: "fwhm_limit res = d_sub (r_amp res) (d_div (d_sub (r_amp res) (r_avg_amp res)) (Fin 2))"
    by (simp add: fwhm_limit_def)
  have out: "fwhm fft res e = (PITCH_RET_ERR, res, PITCH_ERR_INVALID)"
    if "r_index res < LO_INDEX \<or> HI_INDEX < r_index res"
    using that by (auto simp: fwhm_def)
  have ok: "fwhm fft res e =
      (PITCH_RET_OK, res\<lparr>r_fwhm := Fin (of_int ((ih - 1) - (il + 1) + 1))\<rparr>, e)"
    if inside: "LO_INDEX \<le> r_index res \<and> r_index res \<le> HI_INDEX"
      and found: "r_index res < ih \<and> ih \<le> HI_INDEX \<and> below fft (fwhm_limit res) ih \<and>
         (\<forall>k. r_index res < k \<and> k < ih \<longrightarrow> \<not> below fft (fwhm_limit res) k) \<and>
         LO_INDEX \<le> il \<and> il < r_index res \<and> below fft (fwhm_limit res) il \<and>
         (\<forall>k. il < k \<and> k < r_index res \<longrightarrow> \<not> below fft (fwhm_limit res) k)"
    for ih il
  proof -
    have hi: "scan_hi fft (fwhm_limit res) (r_index res + 1) = ih - 1"
      by (rule scan_hi_found) (use found in auto)
    have lo: "scan_lo fft (fwhm_limit res) (r_index res - 1) = il + 1"
      by (rule scan_lo_found) (use found in auto)
    have "ih - 1 \<noteq> 0" "il + 1 \<noteq> 0"
      using found inside by (simp_all add: LO_INDEX_def)
    then show ?thesis
      using inside hi lo by (simp add: fwhm_def Let_def)
  qed
  have err: "fwhm fft res e = (PITCH_RET_ERR, res, PITCH_ERR_SCANFWHM)"
    if inside: "LO_INDEX \<le> r_index res \<and> r_index res \<le> HI_INDEX"
      and none: "(\<forall>k. r_index res < k \<and> k \<le> HI_INDEX \<longrightarrow> \<not> below fft (fwhm_limit res) k) \<or>
       (\<forall>k. LO_INDEX \<le> k \<and> k < r_index res \<longrightarrow> \<not> below fft (fwhm_limit res) k)"
  proof -
    have "scan_hi fft (fwhm_limit res) (r_index res + 1) = 0 \<or>
          scan_lo fft (fwhm_limit res) (r_index res - 1) = 0"
      using none
    proof
      assume "\<forall>k. r_index res < k \<and> k \<le> HI_INDEX \<longrightarrow> \<not> below fft (fwhm_limit res) k"
      then have "scan_hi fft (fwhm_limit res) (r_index res + 1) = 0"
        by (intro scan_hi_none) auto
      then show ?thesis by simp
    next
      assume "\<forall>k. LO_INDEX \<le> k \<and> k < r_index res \<longrightarrow> \<not> below fft (fwhm_limit res) k"
      then have "scan_lo fft (fwhm_limit res) (r_index res - 1) = 0"
        by (intro scan_lo_none) auto
      then show ?thesis by simp
    qed
    then show ?thesis using inside by (auto simp: fwhm_def Let_def)
  qed
  show ?thesis using lim out ok err by blast
qed

theorem fwhm_width_witness:
  "fwhm_limit (res_at 1024) = Fin 3 \<and>
   fwhm plateau (res_at 1024) 0 = (PITCH_RET_OK, (res_at 1024)\<lparr>r_fwhm := Fin 5\<rparr>, 0) \<and>
   fwhm plateau (res_at 1226) 0 = (PITCH_RET_ERR, res_at 1226, PITCH_ERR_SCANFWHM) \<and>
   fwhm plateau (res_at 1227) 0 = (PITCH_RET_ERR, res_at 1227, PITCH_ERR_INVALID)"
proof -
  have lim: "fwhm_limit (res_at idx) = Fin 3" for idx
    by (simp add: fwhm_limit_def res_at_def d_sub_def)
  have idx: "r_index (res_at idx) = idx" for idx by (simp add: res_at_def)
  have b: "below plateau (Fin 3) k \<longleftrightarrow> k \<noteq> 1025 \<and> (k < 1023 \<or> 1027 < k)" for k
    by (auto simp: below_def plateau_def)
  note t1 = fwhm_width [of "res_at 1024" plateau 0, THEN conjunct2, THEN conjunct2]
  have inside: "LO_INDEX \<le> r_index (res_at 1024) \<and> r_index (res_at 1024) \<le> HI_INDEX"
    by (simp add: idx LO_INDEX_def HI_INDEX_def)
  have found: "r_index (res_at 1024) < 1028 \<and> 1028 \<le> HI_INDEX \<and>
         below plateau (fwhm_limit (res_at 1024)) 1028 \<and>
         (\<forall>k. r_index (res_at 1024) < k \<and> k < 1028 \<longrightarrow> \<not> below plateau (fwhm_limit (res_at 1024)) k) \<and>
         LO_INDEX \<le> 1022 \<and> 1022 < r_index (res_at 1024) \<and>
         below plateau (fwhm_limit (res_at 1024)) 1022 \<and>
         (\<forall>k. 1022 < k \<and> k < r_index (res_at 1024) \<longrightarrow> \<not> below plateau (fwhm_limit (res_at 1024)) k)"
    by (auto simp: idx lim b LO_INDEX_def HI_INDEX_def)
  have a: "fwhm plateau (res_at 1024) 0 = (PITCH_RET_OK, (res_at 1024)\<lparr>r_fwhm := Fin 5\<rparr>, 0)"
    using t1 [rule_format, OF inside, THEN conjunct1, rule_format, OF found] by simp
  note t2 = fwhm_width [of "res_at 1226" plateau 0, THEN conjunct2, THEN conjunct2]
  have inside2: "LO_INDEX \<le> r_index (res_at 1226) \<and> r_index (res_at 1226) \<le> HI_INDEX"
    by (simp add: idx LO_INDEX_def HI_INDEX_def)
  have none: "(\<forall>k. r_index (res_at 1226) < k \<and> k \<le> HI_INDEX \<longrightarrow>
                 \<not> below plateau (fwhm_limit (res_at 1226)) k) \<or>
       (\<forall>k. LO_INDEX \<le> k \<and> k < r_index (res_at 1226) \<longrightarrow>
                 \<not> below plateau (fwhm_limit (res_at 1226)) k)"
    by (rule disjI1) (auto simp: idx HI_INDEX_def)
  have c: "fwhm plateau (res_at 1226) 0 = (PITCH_RET_ERR, res_at 1226, PITCH_ERR_SCANFWHM)"
    using t2 [rule_format, OF inside2, THEN conjunct2, rule_format, OF none] .
  have outside: "r_index (res_at 1227) < LO_INDEX \<or> HI_INDEX < r_index (res_at 1227)"
    by (simp add: idx HI_INDEX_def)
  have d: "fwhm plateau (res_at 1227) 0 = (PITCH_RET_ERR, res_at 1227, PITCH_ERR_INVALID)"
    using fwhm_width [of "res_at 1227" plateau 0, THEN conjunct2, THEN conjunct1, rule_format,
        OF outside] .
  show ?thesis using lim a c d by simp
qed


section \<open>The two sums of \<open>snr\<close>\<close>

lemma avg_fold:
  "foldl (avg_step fft) (a, v) xs =
     (foldl d_add a (map (\<lambda>i. f_abs (fft i))
                         (filter (\<lambda>i. i \<noteq> 1025 \<and> is_number (f_abs (fft i))) xs)),
      foldl d_add v (map (\<lambda>i. Fin 1)
                         (filter (\<lambda>i. i \<noteq> 1025 \<and> is_number (f_abs (fft i))) xs)))"
  by (induction xs arbitrary: a v) (simp_all add: avg_step_def is_number_def)

lemma count_fold:
  "foldl d_add (Fin v) (map (\<lambda>i. Fin 1) ys) = Fin (v + real (length ys))"
  by (induction ys arbitrary: v) (simp_all add: add.assoc)

lemma dev_fold:
  "foldl (dev_step fft L) a xs =
     foldl d_add a (map (\<lambda>i. d_pow2 (d_sub (f_abs (fft i)) L))
                        (filter (\<lambda>i. i \<noteq> 1025 \<and> is_number (f_abs (fft i))) xs))"
  by (induction xs arbitrary: a) (simp_all add: dev_step_def is_number_def)

lemma finite_fold:
  "\<forall>x\<in>set ys. \<exists>r. f x = Fin r \<Longrightarrow>
   foldl d_add (Fin a) (map f ys) = Fin (a + (\<Sum>x\<leftarrow>ys. fin_val (f x)))"
proof (induction ys arbitrary: a)
  case Nil
  show ?case by simp
next
  case (Cons y ys)
  then obtain r where r: "f y = Fin r" by auto
  show ?case using Cons.IH [of "a + r"] Cons.prems by (simp add: r add.assoc)
qed

text \<open>The two passes of \<open>snr\<close> compute the mean and the deviation of the specification.\<close>

lemma snr_sums:
  "foldl (avg_step fft) (Fin 0, Fin 0) [LO_INDEX..HI_INDEX] =
     (d_sum (map (\<lambda>i. f_abs (fft i)) (valid_bins fft)), Fin (real (length (valid_bins fft))))"
  by (simp add: avg_fold count_fold d_sum_def valid_bins_def)

lemma snr_eq:
  "snr fft res e =
     (if valid_bins fft = [] then (PITCH_RET_ERR, res, PITCH_ERR_ALLNANS)
      else if d_le (spec_sigma fft) (Fin (1 / 10 ^ 10))
      then (PITCH_RET_ERR, res\<lparr>r_avg_amp := spec_mean fft\<rparr>, PITCH_ERR_SIGMA)
      else (if is_number (d_div (d_sub (r_amp res) (spec_mean fft)) (spec_sigma fft))
            then PITCH_RET_OK else PITCH_RET_NAN,
            res\<lparr>r_avg_amp := spec_mean fft,
                r_snr := d_div (d_sub (r_amp res) (spec_mean fft)) (spec_sigma fft)\<rparr>,
            e))"
proof -
  have cnt: "d_lt (Fin (real (length (valid_bins fft)))) (Fin (1 / 2)) \<longleftrightarrow> valid_bins fft = []"
    by (cases "valid_bins fft") simp_all
  have mean: "d_div (d_sum (map (\<lambda>i. f_abs (fft i)) (valid_bins fft)))
                    (Fin (real (length (valid_bins fft)))) = spec_mean fft"
    by (simp only: spec_mean_def)
  have sig: "d_pow_half (d_div (foldl (dev_step fft (spec_mean fft)) (Fin 0) [LO_INDEX..HI_INDEX])
                               (Fin (real (length (valid_bins fft))))) = spec_sigma fft"
    by (simp only: dev_fold spec_sigma_def d_sum_def valid_bins_def)
  show ?thesis
    unfolding snr_def snr_sums prod.case Let_def cnt mean sig
    by (simp add: is_number_def)
qed

section \<open>The signal-to-noise ratio\<close>

text \<open>
  C7.  The valid bins are the bins of the window, slot 1025 left out, whose magnitude is a
  number; the mean is the sum of their magnitudes over their count and sigma the square
  root of the sum of the squared deviations from the mean over their count, the usual
  mean and population standard deviation when the magnitudes are finite.  Without a valid
  bin \<open>snr\<close> returns \<open>PITCH_RET_ERR\<close> and leaves the record alone.  With one, it stores the
  mean as the average amplitude; when sigma is at most \<open>1e-10\<close> it returns \<open>PITCH_RET_ERR\<close>
  and stores no SNR; otherwise it stores the amplitude less the mean, over sigma, as the
  SNR and returns \<open>PITCH_RET_OK\<close> when that is a number and \<open>PITCH_RET_NAN\<close> when it is
  NaN.
\<close>

theorem snr_mean_sigma:
  "(valid_bins fft = [] \<longrightarrow> snr fft res e = (PITCH_RET_ERR, res, PITCH_ERR_ALLNANS)) \<and>
   (valid_bins fft \<noteq> [] \<and> d_le (spec_sigma fft) (Fin (1 / 10 ^ 10)) \<longrightarrow>
      snr fft res e = (PITCH_RET_ERR, res\<lparr>r_avg_amp := spec_mean fft\<rparr>, PITCH_ERR_SIGMA)) \<and>
   (valid_bins fft \<noteq> [] \<and> \<not> d_le (spec_sigma fft) (Fin (1 / 10 ^ 10)) \<longrightarrow>
      snr fft res e =
        (if is_number (d_div (d_sub (r_amp res) (spec_mean fft)) (spec_sigma fft))
         then PITCH_RET_OK else PITCH_RET_NAN,
         res\<lparr>r_avg_amp := spec_mean fft,
             r_snr := d_div (d_sub (r_amp res) (spec_mean fft)) (spec_sigma fft)\<rparr>,
         e)) \<and>
   (valid_bins fft \<noteq> [] \<and> (\<forall>i\<in>set (valid_bins fft). \<exists>x. f_abs (fft i) = Fin x) \<longrightarrow>
      spec_mean fft =
        Fin ((\<Sum>i\<leftarrow>valid_bins fft. fin_val (f_abs (fft i))) / real (length (valid_bins fft))) \<and>
      spec_sigma fft =
        Fin (sqrt ((\<Sum>i\<leftarrow>valid_bins fft.
                      (fin_val (f_abs (fft i)) - fin_val (spec_mean fft)) ^ 2)
                   / real (length (valid_bins fft)))))"
proof -
  have fin: "spec_mean fft =
        Fin ((\<Sum>i\<leftarrow>valid_bins fft. fin_val (f_abs (fft i))) / real (length (valid_bins fft))) \<and>
      spec_sigma fft =
        Fin (sqrt ((\<Sum>i\<leftarrow>valid_bins fft.
                      (fin_val (f_abs (fft i)) - fin_val (spec_mean fft)) ^ 2)
                   / real (length (valid_bins fft))))"
    if ne: "valid_bins fft \<noteq> []" and all: "\<forall>i\<in>set (valid_bins fft). \<exists>x. f_abs (fft i) = Fin x"
  proof -
    have len: "real (length (valid_bins fft)) \<noteq> 0" using ne by simp
    have m: "spec_mean fft =
        Fin ((\<Sum>i\<leftarrow>valid_bins fft. fin_val (f_abs (fft i))) / real (length (valid_bins fft)))"
      unfolding spec_mean_def d_sum_def
      using finite_fold [of "valid_bins fft" "\<lambda>i. f_abs (fft i)" 0] all len by simp
    define mu where "mu = fin_val (spec_mean fft)"
    have mu: "spec_mean fft = Fin mu" unfolding mu_def using m by simp
    have dev: "\<forall>i\<in>set (valid_bins fft). \<exists>r. d_pow2 (d_sub (f_abs (fft i)) (Fin mu)) = Fin r"
      using all by (auto simp: d_sub_def)
    have devval: "fin_val (d_pow2 (d_sub (f_abs (fft i)) (Fin mu))) = (fin_val (f_abs (fft i)) - mu) ^ 2"
      if "i \<in> set (valid_bins fft)" for i
      using all that by (auto simp: d_sub_def power2_eq_square)
    have sums: "(\<Sum>i\<leftarrow>valid_bins fft. fin_val (d_pow2 (d_sub (f_abs (fft i)) (Fin mu)))) =
                (\<Sum>i\<leftarrow>valid_bins fft. (fin_val (f_abs (fft i)) - mu) ^ 2)"
      using devval by (simp cong: map_cong)
    have nonneg: "0 \<le> (\<Sum>i\<leftarrow>valid_bins fft. (fin_val (f_abs (fft i)) - mu) ^ 2)"
      by (rule sum_list_nonneg) auto
    have "spec_sigma fft =
        Fin (sqrt ((\<Sum>i\<leftarrow>valid_bins fft. (fin_val (f_abs (fft i)) - mu) ^ 2)
                   / real (length (valid_bins fft))))"
      unfolding spec_sigma_def d_sum_def mu
      using finite_fold [of "valid_bins fft" "\<lambda>i. d_pow2 (d_sub (f_abs (fft i)) (Fin mu))" 0]
        dev len nonneg
      by (simp add: sums not_less)
    then show ?thesis using m by (simp add: mu_def)
  qed
  show ?thesis using fin by (simp add: snr_eq)
qed

lemma valid_bins_dc_only: "valid_bins (dc_only v) = []"
  by (simp add: valid_bins_def dc_only_def is_number_def)

lemma valid_bins_two_bins:
  assumes "is_number v" "is_number w"
  shows "valid_bins (two_bins v w) = [1000, 1001]"
proof -
  have split: "[LO_INDEX..HI_INDEX] = [824..999] @ [1000, 1001] @ [1002..1226]"
    unfolding LO_INDEX_def HI_INDEX_def
    by (simp add: upto_split3 [of 824 1000 1226] upto_rec1 [of 1001 1226])
  have lo: "filter (\<lambda>i. i \<noteq> 1025 \<and> is_number (f_abs (two_bins v w i))) [824..999] = []"
    by (simp add: two_bins_def is_number_def)
  have hi: "filter (\<lambda>i. i \<noteq> 1025 \<and> is_number (f_abs (two_bins v w i))) [1002..1226] = []"
    by (simp add: two_bins_def is_number_def)
  show ?thesis
    unfolding valid_bins_def split filter_append lo hi
    using assms by (simp add: two_bins_def)
qed

lemma two_bins_abs:
  "f_abs (two_bins v w 1000) = v" "f_abs (two_bins v w 1001) = w"
  by (simp_all add: two_bins_def)

theorem snr_mean_sigma_witness:
  "valid_bins (dc_only (Fin 0)) = [] \<and>
   snr (dc_only (Fin 0)) res0 0 = (PITCH_RET_ERR, res0, PITCH_ERR_ALLNANS) \<and>
   valid_bins (two_bins (Fin 2) (Fin 2)) = [1000, 1001] \<and>
   d_le (spec_sigma (two_bins (Fin 2) (Fin 2))) (Fin (1 / 10 ^ 10)) \<and>
   snr (two_bins (Fin 2) (Fin 2)) (res_at 1000) 0 =
     (PITCH_RET_ERR, (res_at 1000)\<lparr>r_avg_amp := Fin 2\<rparr>, PITCH_ERR_SIGMA) \<and>
   valid_bins (two_bins (Fin 1) (Fin 3)) = [1000, 1001] \<and>
   spec_mean (two_bins (Fin 1) (Fin 3)) = Fin 2 \<and>
   spec_sigma (two_bins (Fin 1) (Fin 3)) = Fin 1 \<and>
   snr (two_bins (Fin 1) (Fin 3)) (res_at 1001) 0 =
     (PITCH_RET_OK, (res_at 1001)\<lparr>r_avg_amp := Fin 2, r_snr := Fin 3\<rparr>, 0) \<and>
   snr (two_bins (Fin 1) PInf) (res_at 1001) 0 =
     (PITCH_RET_NAN, (res_at 1001)\<lparr>r_avg_amp := PInf, r_snr := NaN\<rparr>, 0)"
proof -
  have v0: "valid_bins (dc_only (Fin 0)) = []" by (rule valid_bins_dc_only)
  have v: "valid_bins (two_bins (Fin 2) (Fin 2)) = [1000, 1001]"
    "valid_bins (two_bins (Fin 1) (Fin 3)) = [1000, 1001]"
    "valid_bins (two_bins (Fin 1) PInf) = [1000, 1001]"
    by (simp_all add: valid_bins_two_bins is_number_def)
  have m2: "spec_mean (two_bins (Fin 2) (Fin 2)) = Fin 2"
    by (simp add: spec_mean_def v d_sum_def two_bins_abs)
  have s2: "spec_sigma (two_bins (Fin 2) (Fin 2)) = Fin 0"
    by (simp add: spec_sigma_def m2 v d_sum_def two_bins_abs d_sub_def)
  have fin: "\<forall>i\<in>set (valid_bins (two_bins (Fin 1) (Fin 3))).
               \<exists>x. f_abs (two_bins (Fin 1) (Fin 3) i) = Fin x"
    by (simp add: v two_bins_abs)
  have ne: "valid_bins (two_bins (Fin 1) (Fin 3)) \<noteq> []" by (simp add: v)
  note t3 = snr_mean_sigma [of "two_bins (Fin 1) (Fin 3)" "res_at 1001" 0]
  note ms = t3 [THEN conjunct2, THEN conjunct2, THEN conjunct2, rule_format, OF conjI, OF ne fin]
  have m3: "spec_mean (two_bins (Fin 1) (Fin 3)) = Fin 2"
    using ms [THEN conjunct1] by (simp add: v two_bins_abs)
  have s3: "spec_sigma (two_bins (Fin 1) (Fin 3)) = Fin 1"
    using ms [THEN conjunct2] by (simp add: v two_bins_abs m3)
  have m4: "spec_mean (two_bins (Fin 1) PInf) = PInf"
    by (simp add: spec_mean_def v d_sum_def two_bins_abs inf_of_sign_def)
  have s4: "spec_sigma (two_bins (Fin 1) PInf) = NaN"
    by (simp add: spec_sigma_def m4 v d_sum_def two_bins_abs d_sub_def)
  have amp: "r_amp (res_at idx) = Fin 5" for idx by (simp add: res_at_def)
  have a: "snr (dc_only (Fin 0)) res0 0 = (PITCH_RET_ERR, res0, PITCH_ERR_ALLNANS)"
    using snr_mean_sigma [of "dc_only (Fin 0)" res0 0] v0 by simp
  have b: "snr (two_bins (Fin 2) (Fin 2)) (res_at 1000) 0 =
     (PITCH_RET_ERR, (res_at 1000)\<lparr>r_avg_amp := Fin 2\<rparr>, PITCH_ERR_SIGMA)"
    using snr_mean_sigma [of "two_bins (Fin 2) (Fin 2)" "res_at 1000" 0]
    by (simp add: v m2 s2 d_le_def)
  have c: "snr (two_bins (Fin 1) (Fin 3)) (res_at 1001) 0 =
     (PITCH_RET_OK, (res_at 1001)\<lparr>r_avg_amp := Fin 2, r_snr := Fin 3\<rparr>, 0)"
    using t3 by (simp add: v m3 s3 d_le_def amp d_sub_def is_number_def)
  have d: "snr (two_bins (Fin 1) PInf) (res_at 1001) 0 =
     (PITCH_RET_NAN, (res_at 1001)\<lparr>r_avg_amp := PInf, r_snr := NaN\<rparr>, 0)"
    using snr_mean_sigma [of "two_bins (Fin 1) PInf" "res_at 1001" 0]
    by (simp add: v m4 s4 d_le_def amp d_sub_def is_number_def)
  show ?thesis
    using v0 a b c d by (simp add: v m2 s2 m3 s3 d_le_def)
qed

section \<open>A zero-signal annulus under the high-pass filter\<close>

text \<open>
  With the documented constants, high-pass mode on and mode 1, a native output of NaN (a
  zero-signal annulus after the division by the normalization) leaves NaN magnitudes in
  the whole window except for the zero the filter writes at slot 1025.
\<close>

lemma remap_abs_magnitude:
  assumes "even n" "1 \<le> s" "s \<le> int n + 1"
  shows "\<exists>c. f_abs (remap n out mode fft s) = magnitude (out c)"
proof (cases "n = 0")
  case True
  then have "s = 1" using assms(2,3) by simp
  then show ?thesis using True remap_zero_dim_slot_1 by blast
next
  case False
  then have n: "1 \<le> n" by simp
  have ev: "2 * (int n div 2) = int n" using assms(1) by simp
  consider "s = 1" | "2 \<le> s \<and> s \<le> int n div 2"
    | "int n div 2 + 1 \<le> s \<and> s \<le> 2 * (int n div 2)" | "s = int n + 1"
    using assms(2,3) ev by arith
  then show ?thesis
  proof cases
    case 1
    then show ?thesis by (simp add: remap_slot_1 [OF n]) blast
  next
    case 2
    then show ?thesis by (simp add: remap_slot_lo written_abs) blast
  next
    case 3
    then show ?thesis by (simp add: remap_slot_hi written_abs) blast
  next
    case 4
    then show ?thesis by (simp add: remap_slot_end [OF n] written_abs) blast
  qed
qed

lemma zero_signal_window:
  assumes "i \<in> set [LO_INDEX..HI_INDEX]"
  shows "f_abs (fst (mode_pass documented 1 (fft, fft_sum) (nan_out, 1)) i) =
           (if i = 1025 then Fin 0 else NaN)"
proof -
  have "i \<in> {LO_INDEX..HI_INDEX}" using assms by (simp only: set_upto)
  then have i: "824 \<le> i" "i \<le> 1226"
    by (simp_all only: atLeastAtMost_iff LO_INDEX_def HI_INDEX_def)
  have dr: "DIM_RAD documented = 2048" by (simp add: documented_def)
  obtain c where "f_abs (remap 2048 nan_out 1 fft i) = magnitude (nan_out c)"
    using remap_abs_magnitude [of 2048 i nan_out 1 fft] i by auto
  then have r: "f_abs (remap 2048 nan_out 1 fft i) = NaN"
    by (simp add: magnitude_def nan_out_def)
  have band: "in_band 1 (freq_save_of documented i) \<longleftrightarrow> i = 1025"
  proof -
    have "in_band 1 (freq_save_of documented i) \<longleftrightarrow> \<bar>real_of_int (i - 1025)\<bar> < 1"
      by (simp add: in_band_abs documented_freq)
    also have "\<dots> \<longleftrightarrow> \<bar>i - 1025\<bar> < 1" by linarith
    finally show ?thesis by auto
  qed
  have eq: "fst (mode_pass documented 1 (fft, fft_sum) (nan_out, 1)) i =
      (if in_bounds documented i then labelled documented 1 1 i (remap 2048 nan_out 1 fft i)
       else remap 2048 nan_out 1 fft i)"
    using i by (simp add: mode_pass_def Let_def freq_loop_fft dr)
  show ?thesis
  proof (cases "i = 1025")
    case True
    then have "in_band 1 (freq_save_of documented i)" "in_bounds documented i"
      using band by (simp_all add: documented_in_bounds)
    then show ?thesis unfolding eq using True by (simp add: labelled_def high_pass_step_def)
  next
    case False
    then have "\<not> in_band 1 (freq_save_of documented i)" using band by simp
    then show ?thesis unfolding eq using False r by (simp add: labelled_def high_pass_step_def)
  qed
qed

lemma zero_signal_pitch_phase:
  "pitch_phase (fst (mode_pass documented 1 (fft, fft_sum) (nan_out, 1))) 1 res e =
     (PITCH_RET_NAN, res, PITCH_ERR_MAX_AMP)"
proof -
  define b where "b = fst (mode_pass documented 1 (fft, fft_sum) (nan_out, 1))"
  have ab: "f_abs (b i) = (if i = 1025 then Fin 0 else NaN)" if "i \<in> set [LO_INDEX..HI_INDEX]" for i
    unfolding b_def using that by (rule zero_signal_window)
  have w: "window_has_number b"
    unfolding window_has_number_def
    by (rule bexI [OF _ in_window_1025]) (simp add: ab [OF in_window_1025] is_number_def)
  have "\<forall>i\<in>set [LO_INDEX..HI_INDEX]. i = 1025 \<or> \<not> d_gt (f_abs (b i)) (Fin (- 255))"
    using ab by simp
  from pitch_phase_no_max [OF this w, of 1 res e]
  show ?thesis by (simp add: b_def PITCH_RET_NAN_def)
qed

section \<open>The outcome of \<open>pitch_phase\<close> when no maximum is found\<close>

text \<open>
  C1.  The claim: when the window holds a number and the search index stays \<open>-1\<close>,
  \<open>pitch_phase\<close> returns \<open>PITCH_RET_ERR\<close>.  The code sets \<open>pitch_errno\<close> to
  \<open>PITCH_ERR_MAX_AMP\<close> on that path and then executes \<open>return(0)\<close>, which is the value
  of \<open>PITCH_RET_NAN\<close>.  The theorem evaluates \<open>pitch_phase\<close> on the array whose only
  number is a magnitude of zero at slot 1025, with mode 1: the window holds a number, the
  status is \<open>PITCH_RET_NAN\<close>, the error number is \<open>PITCH_ERR_MAX_AMP\<close> and the record is
  untouched.  The same happens on the buffer the remap and the frequency loop leave for a
  zero-signal annulus with high-pass mode on and mode 1.
\<close>

theorem pitch_phase_dc_only_returns_nan_code:
  "window_has_number (dc_only (Fin 0)) \<and>
   pitch_phase (dc_only (Fin 0)) 1 res0 0 = (PITCH_RET_NAN, res0, PITCH_ERR_MAX_AMP) \<and>
   PITCH_RET_NAN \<noteq> PITCH_RET_ERR \<and>
   pitch_phase (fst (mode_pass documented 1 (fft, fft_sum) (nan_out, 1))) 1 res e =
     (PITCH_RET_NAN, res, PITCH_ERR_MAX_AMP)"
proof -
  have w: "window_has_number (dc_only (Fin 0))"
    unfolding window_has_number_def
    by (rule bexI [OF _ in_window_1025]) (simp add: dc_only_def is_number_def)
  have "\<forall>i\<in>set [LO_INDEX..HI_INDEX]. i = 1025 \<or> \<not> d_gt (f_abs (dc_only (Fin 0) i)) (Fin (- 255))"
    by (simp add: dc_only_def)
  from pitch_phase_no_max [OF this w]
  show ?thesis
    using w zero_signal_pitch_phase [of fft fft_sum res e]
    by (simp add: PITCH_RET_NAN_def PITCH_RET_ERR_def)
qed

end
